theory Spec2Isabelle
  imports Main "HOL-Library.Word"
begin

text \<open>
  A model of the gallery script of the family video archive: participant collection, chip
  rendering, card expansion with its lazily created player, and filtering by participant.
  The repository holds two versions of the script; the newer one adds the chips
  (generateChips, toggleChips) and narrows the chip selector of filterVideos. The DOM is a
  record of the attributes, flags and children the script reads and writes; a fault of the
  script is a value.
\<close>

section \<open>JavaScript strings\<close>

text \<open>
  A JavaScript string is a sequence of 16-bit code units. \<open>js\<close> embeds an ASCII literal;
  code units beyond ASCII are written as numerals.
\<close>

type_synonym jsstring = "16 word list"

definition js :: "string \<Rightarrow> jsstring" where
  "js s = map (\<lambda>c. of_nat (of_char c)) s"

text \<open>
  \<open>String.prototype.trim\<close> strips the WhiteSpace and LineTerminator code points of
  ECMAScript from both ends: TAB, LF, VT, FF, CR, SP, NBSP, the Unicode space separators,
  LS, PS and the byte order mark.
\<close>

definition isWhiteSpace :: "16 word \<Rightarrow> bool" where
  "isWhiteSpace c \<longleftrightarrow>
     c \<in> {0x9, 0xA, 0xB, 0xC, 0xD, 0x20, 0xA0, 0x1680, 0x2028, 0x2029, 0x202F, 0x205F,
          0x3000, 0xFEFF}
     \<or> (0x2000 \<le> c \<and> c \<le> 0x200A)"

definition trim :: "jsstring \<Rightarrow> jsstring" where
  "trim s = rev (dropWhile isWhiteSpace (rev (dropWhile isWhiteSpace s)))"

text \<open>\<open>s.split(sep)\<close> for a one-unit separator; the empty string splits into \<open>['']\<close>.\<close>

fun split :: "16 word \<Rightarrow> jsstring \<Rightarrow> jsstring list" where
  "split sep [] = [[]]"
| "split sep (c # cs) =
     (if c = sep then [] # split sep cs
      else (case split sep cs of [] \<Rightarrow> [[c]] | w # ws \<Rightarrow> (c # w) # ws))"

definition split_comma :: "jsstring \<Rightarrow> jsstring list" where
  "split_comma s = split 0x2C s"

text \<open>Template-literal rendering of an integral Number.\<close>

fun decimal :: "nat \<Rightarrow> jsstring" where
  "decimal n =
     (if n < 10 then [of_nat (48 + n)] else decimal (n div 10) @ [of_nat (48 + n mod 10)])"

declare decimal.simps [simp del]

definition number_toString :: "int \<Rightarrow> jsstring" where
  "number_toString i = (if i < 0 then 0x2D # decimal (nat (- i)) else decimal (nat i))"

text \<open>A template literal renders an absent dataset entry as the text \<open>undefined\<close>.\<close>

definition template_value :: "jsstring option \<Rightarrow> jsstring" where
  "template_value v = (case v of None \<Rightarrow> js ''undefined'' | Some s \<Rightarrow> s)"

section \<open>Collation\<close>

text \<open>
  \<open>a.localeCompare(b, 'es', { sensitivity: 'base' })\<close> belongs to the host, not to the
  script; the operations below take the comparator as a parameter. \<open>localeCompare_es_base\<close>
  is a small instance used for concrete runs: it compares primary weights letter by letter,
  folding ASCII case and the Spanish accented vowels onto their base letter and placing
  \<open>n-tilde\<close> between \<open>n\<close> and \<open>o\<close>.
\<close>

definition base_weight :: "16 word \<Rightarrow> nat" where
  "base_weight c =
     (if 0x41 \<le> c \<and> c \<le> 0x5A then 2 * (unat c + 32)
      else if c = 0xE1 \<or> c = 0xC1 then 2 * 0x61
      else if c = 0xE9 \<or> c = 0xC9 then 2 * 0x65
      else if c = 0xED \<or> c = 0xCD then 2 * 0x69
      else if c = 0xF3 \<or> c = 0xD3 then 2 * 0x6F
      else if c = 0xFA \<or> c = 0xDA \<or> c = 0xFC \<or> c = 0xDC then 2 * 0x75
      else if c = 0xF1 \<or> c = 0xD1 then 2 * 0x6E + 1
      else 2 * unat c)"

fun lex_compare :: "nat list \<Rightarrow> nat list \<Rightarrow> int" where
  "lex_compare [] [] = 0"
| "lex_compare [] (y # ys) = - 1"
| "lex_compare (x # xs) [] = 1"
| "lex_compare (x # xs) (y # ys) =
     (if x < y then - 1 else if y < x then 1 else lex_compare xs ys)"

definition localeCompare_es_base :: "jsstring \<Rightarrow> jsstring \<Rightarrow> int" where
  "localeCompare_es_base a b = lex_compare (map base_weight a) (map base_weight b)"

text \<open>
  \<open>Array.prototype.sort(compareFn)\<close> is a stable sort: an element is placed before the
  first element it does not compare greater than.
\<close>

fun sort_insert :: "('a \<Rightarrow> 'a \<Rightarrow> int) \<Rightarrow> 'a \<Rightarrow> 'a list \<Rightarrow> 'a list" where
  "sort_insert cmp x [] = [x]"
| "sort_insert cmp x (y # ys) =
     (if cmp x y \<le> 0 then x # y # ys else y # sort_insert cmp x ys)"

definition array_sort :: "('a \<Rightarrow> 'a \<Rightarrow> int) \<Rightarrow> 'a list \<Rightarrow> 'a list" where
  "array_sort cmp xs = foldr (sort_insert cmp) xs []"

text \<open>A comparator is consistent when "not greater" is total and transitive.\<close>

definition consistent_comparator :: "('a \<Rightarrow> 'a \<Rightarrow> int) \<Rightarrow> bool" where
  "consistent_comparator cmp \<longleftrightarrow>
     (\<forall>a b. cmp a b \<le> 0 \<or> cmp b a \<le> 0) \<and>
     (\<forall>a b c. cmp a b \<le> 0 \<longrightarrow> cmp b c \<le> 0 \<longrightarrow> cmp a c \<le> 0)"

text \<open>A \<open>Set\<close> keeps insertion order and ignores a value it already holds.\<close>

definition set_add :: "'a \<Rightarrow> 'a list \<Rightarrow> 'a list" where
  "set_add x s = (if x \<in> set s then s else s @ [x])"

section \<open>The page\<close>

datatype error = TypeError

text \<open>\<open>DOMTokenList.add\<close> and \<open>remove\<close> on a class list.\<close>

definition classList_add :: "jsstring \<Rightarrow> jsstring list \<Rightarrow> jsstring list" where
  "classList_add t cl = (if t \<in> set cl then cl else cl @ [t])"

definition classList_remove :: "jsstring \<Rightarrow> jsstring list \<Rightarrow> jsstring list" where
  "classList_remove t cl = filter (\<lambda>u. u \<noteq> t) cl"

record iframe =
  iframe_src :: jsstring
  iframe_title :: jsstring
  iframe_allow :: jsstring
  iframe_allowFullscreen :: bool
  iframe_referrerPolicy :: jsstring
  iframe_loading :: jsstring

datatype tag = Span | Button

text \<open>
  A child of the chips container: a participant chip (\<open>span\<close>) or the expand control
  (\<open>button\<close>). \<open>onclick_toggleChips\<close> records the click listener that generateChips
  attaches to the control.
\<close>

record element =
  tagName :: tag
  classList :: "jsstring list"
  textContent :: jsstring
  aria_expanded :: "jsstring option"
  el_title :: jsstring
  el_type :: "jsstring option"
  onclick_toggleChips :: bool

text \<open>
  A card with the sub-elements the host markup provides: the thumbnail control, the embed
  container, the player container, the title and the chips container. The two dataset
  entries may be absent from the markup.
\<close>

record card =
  data_participants :: "jsstring option"
  data_videoId :: "jsstring option"
  data_expanded :: "jsstring option"
  hidden :: bool
  title_textContent :: jsstring
  thumbnail_aria_expanded :: "jsstring option"
  embed_hidden :: bool
  player_classList :: "jsstring list"
  player_iframes :: "iframe list"
  chips :: "element list"

text \<open>
  The page: the card list is fixed when the script starts; a card is named by its
  position in it. \<open>scroll_timers\<close> holds the cards with a pending scrollIntoView.
\<close>

record gallery =
  videoCards :: "card list"
  emptyState_hidden :: bool
  participantFilter_value :: jsstring
  participantFilter_options :: "(jsstring \<times> jsstring) list"
  scroll_timers :: "nat list"

definition MAX_VISIBLE_CHIPS :: nat where
  "MAX_VISIBLE_CHIPS = 4"

section \<open>Participants\<close>

fun collect_forEach :: "card list \<Rightarrow> jsstring list \<Rightarrow> error + jsstring list" where
  "collect_forEach [] participantsSet = Inr participantsSet"
| "collect_forEach (card' # rest) participantsSet =
     (case data_participants card' of
        None \<Rightarrow> Inl TypeError
      | Some ps \<Rightarrow>
          collect_forEach rest
            (fold (\<lambda>p s. set_add (trim p) s) (split_comma ps) participantsSet))"

definition collectParticipants ::
  "(jsstring \<Rightarrow> jsstring \<Rightarrow> int) \<Rightarrow> gallery \<Rightarrow> error + jsstring list" where
  "collectParticipants localeCompare g =
     (case collect_forEach (videoCards g) [] of
        Inl e \<Rightarrow> Inl e
      | Inr participantsSet \<Rightarrow> Inr (array_sort localeCompare participantsSet))"

definition populateFilterDropdown ::
  "(jsstring \<Rightarrow> jsstring \<Rightarrow> int) \<Rightarrow> gallery \<Rightarrow> (error \<times> gallery) + gallery" where
  "populateFilterDropdown localeCompare g =
     (case collectParticipants localeCompare g of
        Inl e \<Rightarrow> Inl (e, g)
      | Inr participants \<Rightarrow>
          Inr (g\<lparr>participantFilter_options :=
                  participantFilter_options g @ map (\<lambda>p. (p, p)) participants\<rparr>))"

section \<open>Chips\<close>

text \<open>
  The selectors of filterVideos and toggleChips over the children of the chips container,
  as positions: \<open>.chip:not(.chip--expand)\<close> in the newer script, \<open>.chip\<close> in
  \<open>script.js\<close>.
\<close>

definition chip_not_expand :: "element \<Rightarrow> bool" where
  "chip_not_expand e \<longleftrightarrow>
     js ''chip'' \<in> set (classList e) \<and> js ''chip--expand'' \<notin> set (classList e)"

definition chip_any :: "element \<Rightarrow> bool" where
  "chip_any e \<longleftrightarrow> js ''chip'' \<in> set (classList e)"

definition querySelectorAll :: "(element \<Rightarrow> bool) \<Rightarrow> element list \<Rightarrow> nat list" where
  "querySelectorAll q els = map fst (filter (\<lambda>(k, e). q e) (enumerate 0 els))"

text \<open>The two template literals of the expand control; the code unit after \<open>m\<close> is U+CE58.\<close>

definition more_label :: "int \<Rightarrow> jsstring" where
  "more_label hiddenCount = js ''+'' @ number_toString hiddenCount @ js '' m'' @ [0xCE58] @ js ''s''"

definition more_title :: "int \<Rightarrow> jsstring" where
  "more_title hiddenCount =
     js ''Ver '' @ number_toString hiddenCount @ js '' participantes m'' @ [0xCE58] @ js ''s''"

definition new_chip :: "nat \<Rightarrow> jsstring \<Rightarrow> element" where
  "new_chip index participant =
     (let chip = \<lparr>tagName = Span, classList = [js ''chip''], textContent = participant,
                  aria_expanded = None, el_title = [], el_type = None,
                  onclick_toggleChips = False\<rparr>
      in if index \<ge> MAX_VISIBLE_CHIPS
         then chip\<lparr>classList := classList_add (js ''chip--hidden'') (classList chip)\<rparr>
         else chip)"

definition new_expandBtn :: "int \<Rightarrow> element" where
  "new_expandBtn hiddenCount =
     \<lparr>tagName = Button, classList = [js ''chip'', js ''chip--expand''],
      textContent = more_label hiddenCount, aria_expanded = Some (js ''false''),
      el_title = more_title hiddenCount, el_type = Some (js ''button''),
      onclick_toggleChips = True\<rparr>"

definition generateChips :: "card \<Rightarrow> error + card" where
  "generateChips card' =
     (case data_participants card' of
        None \<Rightarrow> Inl TypeError
      | Some ps \<Rightarrow>
          let participants = map trim (split_comma ps);
              totalCount = length participants;
              created = map (\<lambda>(index, participant). new_chip index participant)
                          (enumerate 0 participants)
          in Inr (card'\<lparr>chips :=
                    (if totalCount > MAX_VISIBLE_CHIPS
                     then created @ [new_expandBtn (int totalCount - int MAX_VISIBLE_CHIPS)]
                     else created)\<rparr>))"

text \<open>
  \<open>toggleChips card b\<close>: \<open>b\<close> is the position of the expand control among the children of
  the card's chips container (every caller passes a control that is there).
\<close>

definition toggleChips :: "card \<Rightarrow> nat \<Rightarrow> error + card" where
  "toggleChips card' b =
     (let expandBtn = chips card' ! b;
          isExpanded = (aria_expanded expandBtn = Some (js ''true''))
      in case data_participants card' of
           None \<Rightarrow> Inl TypeError
         | Some ps \<Rightarrow>
             let participants = map trim (split_comma ps);
                 hiddenCount = int (length participants) - int MAX_VISIBLE_CHIPS;
                 allChips = querySelectorAll chip_not_expand (chips card');
                 toggleableChips = drop MAX_VISIBLE_CHIPS allChips
             in if isExpanded then
                  Inr (card'\<lparr>chips :=
                    fold (\<lambda>k els. els[k := (els ! k)\<lparr>classList :=
                            classList_add (js ''chip--hidden'')
                              (classList_remove (js ''chip--visible'') (classList (els ! k)))\<rparr>])
                      toggleableChips
                      ((chips card')[b := expandBtn\<lparr>aria_expanded := Some (js ''false''),
                                         textContent := more_label hiddenCount,
                                         el_title := more_title hiddenCount\<rparr>])\<rparr>)
                else
                  Inr (card'\<lparr>chips :=
                    fold (\<lambda>k els. els[k := (els ! k)\<lparr>classList :=
                            classList_add (js ''chip--visible'')
                              (classList_remove (js ''chip--hidden'') (classList (els ! k)))\<rparr>])
                      toggleableChips
                      ((chips card')[b := expandBtn\<lparr>aria_expanded := Some (js ''true''),
                                         textContent := js ''Ver menos'',
                                         el_title := js ''Ocultar participantes''\<rparr>])\<rparr>))"

section \<open>Card expansion\<close>

text \<open>\<open>querySelector('iframe')\<close> followed by \<open>remove()\<close>: the first iframe, if any.\<close>

definition remove_iframe :: "card \<Rightarrow> card" where
  "remove_iframe card' =
     (case player_iframes card' of
        [] \<Rightarrow> card'
      | iframe # rest \<Rightarrow> card'\<lparr>player_iframes := rest\<rparr>)"

definition loadYouTubeEmbed :: "card \<Rightarrow> card" where
  "loadYouTubeEmbed card' =
     (let videoId = data_videoId card';
          videoTitle = title_textContent card';
          iframe = \<lparr>iframe_src = js ''https://www.youtube-nocookie.com/embed/''
                       @ template_value videoId
                       @ js ''?rel=0&modestbranding=1&autoplay=1&enablejsapi=0'',
                    iframe_title = videoTitle,
                    iframe_allow = js ''accelerometer; autoplay; clipboard-write; encrypted-media; gyroscope; picture-in-picture; web-share'',
                    iframe_allowFullscreen = True,
                    iframe_referrerPolicy = js ''strict-origin-when-cross-origin'',
                    iframe_loading = js ''lazy''\<rparr>
      in card'\<lparr>player_classList :=
                  classList_add (js ''video-card__player--loading'') (player_classList card'),
                player_iframes := player_iframes card' @ [iframe]\<rparr>)"

text \<open>
  \<open>toggleVideoCard g i\<close> toggles the card at position \<open>i\<close> of the card list; the callers
  pass a card of the list. Expanding schedules the deferred scroll.
\<close>

definition toggleVideoCard :: "gallery \<Rightarrow> nat \<Rightarrow> gallery" where
  "toggleVideoCard g i =
     (let card' = videoCards g ! i;
          isExpanded = (thumbnail_aria_expanded card' = Some (js ''true''))
      in if isExpanded then
           g\<lparr>videoCards := (videoCards g)[i :=
               remove_iframe (card'\<lparr>thumbnail_aria_expanded := Some (js ''false''),
                                     embed_hidden := True,
                                     data_expanded := None\<rparr>)]\<rparr>
         else
           let others = map (\<lambda>(j, otherCard).
                   if j \<noteq> i then
                     (if thumbnail_aria_expanded otherCard = Some (js ''true'')
                      then remove_iframe
                             (otherCard\<lparr>thumbnail_aria_expanded := Some (js ''false''),
                                         embed_hidden := True,
                                         data_expanded := None\<rparr>)
                      else otherCard)
                   else otherCard) (enumerate 0 (videoCards g));
               expanded = loadYouTubeEmbed
                   ((others ! i)\<lparr>thumbnail_aria_expanded := Some (js ''true''),
                                  embed_hidden := False,
                                  data_expanded := Some (js ''true'')\<rparr>)
           in g\<lparr>videoCards := others[i := expanded],
                scroll_timers := scroll_timers g @ [i]\<rparr>)"

section \<open>Filtering\<close>

definition highlight_chip :: "(element \<Rightarrow> bool) \<Rightarrow> jsstring \<Rightarrow> element \<Rightarrow> element" where
  "highlight_chip q selectedParticipant chip =
     (if q chip then
        (if selectedParticipant \<noteq> [] \<and> trim (textContent chip) = selectedParticipant
         then chip\<lparr>classList := classList_add (js ''chip--highlighted'') (classList chip)\<rparr>
         else chip\<lparr>classList := classList_remove (js ''chip--highlighted'') (classList chip)\<rparr>)
      else chip)"

text \<open>
  The callback of filterVideos for the card at position \<open>i\<close>, on the page and the running
  \<open>visibleCount\<close>. A fault leaves the page as it is at that moment.
\<close>

definition filterVideos_callback ::
  "(element \<Rightarrow> bool) \<Rightarrow> jsstring \<Rightarrow> nat \<Rightarrow> gallery \<times> nat \<Rightarrow> (error \<times> gallery) + (gallery \<times> nat)" where
  "filterVideos_callback q selectedParticipant i st =
     (case st of (g, visibleCount) \<Rightarrow>
        let card' = videoCards g ! i in
        case data_participants card' of
          None \<Rightarrow> Inl (TypeError, g)
        | Some ps \<Rightarrow>
            let participants = map trim (split_comma ps) in
            if selectedParticipant = [] \<or> selectedParticipant \<in> set participants then
              Inr (g\<lparr>videoCards := (videoCards g)[i :=
                       card'\<lparr>hidden := False,
                              chips := map (highlight_chip q selectedParticipant) (chips card')\<rparr>]\<rparr>,
                   visibleCount + 1)
            else
              let g1 = g\<lparr>videoCards := (videoCards g)[i := card'\<lparr>hidden := True\<rparr>]\<rparr>
              in Inr (if thumbnail_aria_expanded (videoCards g1 ! i) = Some (js ''true'')
                      then toggleVideoCard g1 i else g1,
                      visibleCount))"

fun filterVideos_forEach ::
  "(element \<Rightarrow> bool) \<Rightarrow> jsstring \<Rightarrow> nat list \<Rightarrow> gallery \<times> nat \<Rightarrow> (error \<times> gallery) + (gallery \<times> nat)" where
  "filterVideos_forEach q selectedParticipant [] st = Inr st"
| "filterVideos_forEach q selectedParticipant (i # rest) st =
     (case filterVideos_callback q selectedParticipant i st of
        Inl e \<Rightarrow> Inl e
      | Inr st' \<Rightarrow> filterVideos_forEach q selectedParticipant rest st')"

text \<open>filterVideos with the chip selector \<open>q\<close> of either script.\<close>

definition filterVideos_with ::
  "(element \<Rightarrow> bool) \<Rightarrow> gallery \<Rightarrow> jsstring \<Rightarrow> (error \<times> gallery) + gallery" where
  "filterVideos_with q g selectedParticipant =
     (case filterVideos_forEach q selectedParticipant [0..<length (videoCards g)] (g, 0) of
        Inl e \<Rightarrow> Inl e
      | Inr (g', visibleCount) \<Rightarrow>
          Inr (if visibleCount = 0 then g'\<lparr>emptyState_hidden := False\<rparr>
               else g'\<lparr>emptyState_hidden := True\<rparr>))"

definition filterVideos :: "gallery \<Rightarrow> jsstring \<Rightarrow> (error \<times> gallery) + gallery" where
  "filterVideos = filterVideos_with chip_not_expand"

definition filterVideos_script_js :: "gallery \<Rightarrow> jsstring \<Rightarrow> (error \<times> gallery) + gallery" where
  "filterVideos_script_js = filterVideos_with chip_any"

definition resetFilter :: "gallery \<Rightarrow> (error \<times> gallery) + gallery" where
  "resetFilter g = filterVideos (g\<lparr>participantFilter_value := []\<rparr>) []"

section \<open>Listeners and initialisation\<close>

definition keydown_thumbnail :: "nat \<Rightarrow> jsstring \<Rightarrow> gallery \<Rightarrow> gallery" where
  "keydown_thumbnail i key g =
     (if key = js ''Enter'' \<or> key = js '' '' then toggleVideoCard g i else g)"

definition keydown_document :: "jsstring \<Rightarrow> gallery \<Rightarrow> gallery" where
  "keydown_document key g =
     (if key = js ''Escape'' then
        fold (\<lambda>i g'. if thumbnail_aria_expanded (videoCards g' ! i) = Some (js ''true'')
                      then toggleVideoCard g' i else g')
          [0..<length (videoCards g)] g
      else g)"

fun generateChips_forEach :: "card list \<Rightarrow> error option \<times> card list" where
  "generateChips_forEach [] = (None, [])"
| "generateChips_forEach (card' # rest) =
     (case generateChips card' of
        Inl e \<Rightarrow> (Some e, card' # rest)
      | Inr generated \<Rightarrow>
          (case generateChips_forEach rest of (r, rest') \<Rightarrow> (r, generated # rest')))"

definition init ::
  "(jsstring \<Rightarrow> jsstring \<Rightarrow> int) \<Rightarrow> gallery \<Rightarrow> (error \<times> gallery) + gallery" where
  "init localeCompare g =
     (case generateChips_forEach (videoCards g) of
        (Some e, cs) \<Rightarrow> Inl (e, g\<lparr>videoCards := cs\<rparr>)
      | (None, cs) \<Rightarrow> populateFilterDropdown localeCompare (g\<lparr>videoCards := cs\<rparr>))"

text \<open>The page a handler leaves behind, whether it returned or its fault went uncaught.\<close>

definition settle :: "(error \<times> gallery) + gallery \<Rightarrow> gallery" where
  "settle r = (case r of Inl (e, g) \<Rightarrow> g | Inr g \<Rightarrow> g)"

text \<open>
  The events the script listens to. A key pressed on a thumbnail control bubbles to the
  document; a change of the filter control carries its new value.
\<close>

datatype event =
    Click_thumbnail nat
  | Keydown_thumbnail nat jsstring
  | Keydown_document jsstring
  | Change_filter jsstring
  | Click_reset
  | Click_expand nat nat
  | Load_iframe nat
  | Timeout_scroll

fun enabled :: "event \<Rightarrow> gallery \<Rightarrow> bool" where
  "enabled (Click_thumbnail i) g = (i < length (videoCards g))"
| "enabled (Keydown_thumbnail i key) g = (i < length (videoCards g))"
| "enabled (Keydown_document key) g = True"
| "enabled (Change_filter v) g = True"
| "enabled Click_reset g = True"
| "enabled (Click_expand i b) g =
     (i < length (videoCards g) \<and> b < length (chips (videoCards g ! i)) \<and>
      onclick_toggleChips (chips (videoCards g ! i) ! b))"
| "enabled (Load_iframe i) g = (i < length (videoCards g) \<and> player_iframes (videoCards g ! i) \<noteq> [])"
| "enabled Timeout_scroll g = (scroll_timers g \<noteq> [])"

fun handle :: "event \<Rightarrow> gallery \<Rightarrow> gallery" where
  "handle (Click_thumbnail i) g = toggleVideoCard g i"
| "handle (Keydown_thumbnail i key) g = keydown_document key (keydown_thumbnail i key g)"
| "handle (Keydown_document key) g = keydown_document key g"
| "handle (Change_filter v) g = settle (filterVideos (g\<lparr>participantFilter_value := v\<rparr>) v)"
| "handle Click_reset g = settle (resetFilter g)"
| "handle (Click_expand i b) g =
     (case toggleChips (videoCards g ! i) b of
        Inl e \<Rightarrow> g
      | Inr toggled \<Rightarrow> g\<lparr>videoCards := (videoCards g)[i := toggled]\<rparr>)"
| "handle (Load_iframe i) g =
     g\<lparr>videoCards := (videoCards g)[i := (videoCards g ! i)\<lparr>player_classList :=
          classList_remove (js ''video-card__player--loading'')
            (player_classList (videoCards g ! i))\<rparr>]\<rparr>"
| "handle Timeout_scroll g = g\<lparr>scroll_timers := tl (scroll_timers g)\<rparr>"

inductive reachable_from :: "gallery \<Rightarrow> gallery \<Rightarrow> bool" where
  start: "reachable_from g g"
| step: "reachable_from g0 g \<Longrightarrow> enabled ev g \<Longrightarrow> reachable_from g0 (handle ev g)"

section \<open>Notions used in the properties\<close>

definition expanded :: "card \<Rightarrow> bool" where
  "expanded c \<longleftrightarrow> thumbnail_aria_expanded c = Some (js ''true'')"

text \<open>The trimmed names of a card's participant list (none when the attribute is absent).\<close>

definition participant_names :: "card \<Rightarrow> jsstring list" where
  "participant_names c =
     (case data_participants c of None \<Rightarrow> [] | Some ps \<Rightarrow> map trim (split_comma ps))"

definition selected :: "jsstring \<Rightarrow> card \<Rightarrow> bool" where
  "selected sel c \<longleftrightarrow> sel = [] \<or> sel \<in> set (participant_names c)"

text \<open>The explicit collapse: what toggleVideoCard does to an expanded card.\<close>

definition collapse_card :: "card \<Rightarrow> card" where
  "collapse_card c =
     remove_iframe (c\<lparr>thumbnail_aria_expanded := Some (js ''false''),
                      embed_hidden := True,
                      data_expanded := None\<rparr>)"

definition expand_card :: "card \<Rightarrow> card" where
  "expand_card c =
     loadYouTubeEmbed (c\<lparr>thumbnail_aria_expanded := Some (js ''true''),
                         embed_hidden := False,
                         data_expanded := Some (js ''true'')\<rparr>)"

text \<open>What one run of filterVideos makes of a single card that has a participant list.\<close>

definition filter_card :: "(element \<Rightarrow> bool) \<Rightarrow> jsstring \<Rightarrow> card \<Rightarrow> card" where
  "filter_card q sel c =
     (if selected sel c
      then c\<lparr>hidden := False, chips := map (highlight_chip q sel) (chips c)\<rparr>
      else if expanded c then collapse_card (c\<lparr>hidden := True\<rparr>)
      else c\<lparr>hidden := True\<rparr>)"

definition highlighted :: "element \<Rightarrow> bool" where
  "highlighted e \<longleftrightarrow> js ''chip--highlighted'' \<in> set (classList e)"

definition chip_hidden :: "element \<Rightarrow> bool" where
  "chip_hidden e \<longleftrightarrow> js ''chip--hidden'' \<in> set (classList e)"

subsection \<open>Reachable pages and their invariants\<close>

text \<open>
  Markup is pristine when no card is expanded and no player holds an iframe. \<open>page_load\<close>
  is the page the script's start leaves, whether init returned or faulted.
\<close>

definition pristine :: "gallery \<Rightarrow> bool" where
  "pristine m \<longleftrightarrow> list_all (\<lambda>c. \<not> expanded c \<and> player_iframes c = []) (videoCards m)"

definition page_load :: "(jsstring \<Rightarrow> jsstring \<Rightarrow> int) \<Rightarrow> gallery \<Rightarrow> gallery" where
  "page_load localeCompare m = settle (init localeCompare m)"

definition player_matches :: "card \<Rightarrow> bool" where
  "player_matches c \<longleftrightarrow> length (player_iframes c) = (if expanded c then 1 else 0)"

definition expansion_inv :: "gallery \<Rightarrow> bool" where
  "expansion_inv g \<longleftrightarrow>
     length (filter expanded (videoCards g)) \<le> 1 \<and> list_all player_matches (videoCards g)"

definition settles_to :: "card \<Rightarrow> card \<Rightarrow> bool" where
  "settles_to c c' \<longleftrightarrow>
     (expanded c' = expanded c \<and> player_iframes c' = player_iframes c) \<or>
     (expanded c \<and> \<not> expanded c' \<and> player_iframes c' = tl (player_iframes c))"

definition state_of :: "(error \<times> gallery) + (gallery \<times> nat) \<Rightarrow> gallery" where
  "state_of r = (case r of Inl (e, g) \<Rightarrow> g | Inr (g, n) \<Rightarrow> g)"

text \<open>
  The chips of a card agree with the selection \<open>sel\<close>: the expand control is outside the
  selector, a participant chip carries trimmed text, and on a shown card it is highlighted
  exactly when a selection is active and equals its text.
\<close>

definition chip_ok :: "jsstring \<Rightarrow> bool \<Rightarrow> element \<Rightarrow> bool" where
  "chip_ok sel shown e \<longleftrightarrow>
     (onclick_toggleChips e \<longrightarrow> \<not> chip_not_expand e) \<and>
     (chip_not_expand e \<longrightarrow>
        trim (textContent e) = textContent e \<and>
        (shown \<longrightarrow> (highlighted e \<longleftrightarrow> sel \<noteq> [] \<and> textContent e = sel)))"

definition card_chips_inv :: "jsstring \<Rightarrow> card \<Rightarrow> bool" where
  "card_chips_inv sel c \<longleftrightarrow>
     data_participants c \<noteq> None \<and> list_all (chip_ok sel (\<not> hidden c)) (chips c)"

definition chips_inv :: "gallery \<Rightarrow> bool" where
  "chips_inv g \<longleftrightarrow> list_all (card_chips_inv (participantFilter_value g)) (videoCards g)"

definition same_view :: "card \<Rightarrow> card \<Rightarrow> bool" where
  "same_view c c' \<longleftrightarrow>
     data_participants c' = data_participants c \<and> hidden c' = hidden c \<and> chips c' = chips c"

definition chip_rel :: "element \<Rightarrow> element \<Rightarrow> bool" where
  "chip_rel e e' \<longleftrightarrow>
     onclick_toggleChips e' = onclick_toggleChips e \<and>
     chip_not_expand e' = chip_not_expand e \<and>
     (chip_not_expand e \<longrightarrow> textContent e' = textContent e \<and> highlighted e' = highlighted e)"

subsection \<open>Example pages\<close>

text \<open>A card and a page as static markup has them: collapsed, shown, no player, no chips.\<close>

definition markup_card :: "jsstring option \<Rightarrow> jsstring \<Rightarrow> card" where
  "markup_card ps vid =
     \<lparr>data_participants = ps, data_videoId = Some vid, data_expanded = None,
      hidden = False, title_textContent = js ''Video'',
      thumbnail_aria_expanded = Some (js ''false''), embed_hidden = True,
      player_classList = [], player_iframes = [], chips = []\<rparr>"

definition markup_page :: "card list \<Rightarrow> gallery" where
  "markup_page cs =
     \<lparr>videoCards = cs, emptyState_hidden = True, participantFilter_value = [],
      participantFilter_options = [([], js ''Todos'')], scroll_timers = []\<rparr>"

definition page_beto_ana :: gallery where
  "page_beto_ana =
     markup_page [markup_card (Some (js ''beto, Ana'')) (js ''v1''),
                  markup_card (Some (js ''ana'')) (js ''v2'')]"

definition page_ana_carla :: gallery where
  "page_ana_carla =
     markup_page [markup_card (Some (js ''Ana, Beto'')) (js ''v1''),
                  markup_card (Some (js ''Carla'')) (js ''v2'')]"

text \<open>The same page once the script has run, then after choosing Carla, then Ana.\<close>

definition page_loaded :: gallery where
  "page_loaded = settle (init localeCompare_es_base page_ana_carla)"

definition page_carla :: gallery where
  "page_carla = handle (Change_filter (js ''Carla'')) page_loaded"

definition page_ana :: gallery where
  "page_ana = handle (Change_filter (js ''Ana'')) page_carla"

text \<open>A page whose second card is expanded, and one whose second card lacks the list.\<close>

definition page_playing :: gallery where
  "page_playing =
     markup_page [markup_card (Some (js ''Ana, Beto'')) (js ''v1''),
                  expand_card (markup_card (Some (js ''Carla'')) (js ''v2''))]"

definition page_broken :: gallery where
  "page_broken =
     markup_page [markup_card (Some (js ''Ana, Beto'')) (js ''v1''),
                  markup_card None (js ''v2'')]"

text \<open>The loaded page after a click on the first thumbnail.\<close>

definition page_first :: gallery where
  "page_first = handle (Click_thumbnail 0) page_loaded"

text \<open>
  A card with six participants: as generateChips renders it, after one activation of the
  expand control (the seventh child of its chips container), and after a second one.
\<close>

definition chips_of :: "error + card \<Rightarrow> element list" where
  "chips_of r = (case r of Inl e \<Rightarrow> [] | Inr c \<Rightarrow> chips c)"

definition card_six :: card where
  "card_six = markup_card (Some (js ''Ana, Beto, Carla, Dora, Eva, Fito'')) (js ''v6'')"

definition card_six_generated :: card where
  "card_six_generated = card_six\<lparr>chips := chips_of (generateChips card_six)\<rparr>"

definition card_six_more :: card where
  "card_six_more = card_six\<lparr>chips := chips_of (toggleChips card_six_generated 6)\<rparr>"

definition card_six_less :: card where
  "card_six_less = card_six\<lparr>chips := chips_of (toggleChips card_six_more 6)\<rparr>"

section \<open>Sorting and collecting\<close>

lemma set_sort_insert: "set (sort_insert cmp x xs) = insert x (set xs)"
  by (induction xs) auto

lemma distinct_sort_insert:
  "distinct (sort_insert cmp x xs) \<longleftrightarrow> x \<notin> set xs \<and> distinct xs"
  by (induction xs) (auto simp: set_sort_insert)

lemma sorted_sort_insert:
  assumes "consistent_comparator cmp" and "sorted_wrt (\<lambda>a b. cmp a b \<le> 0) xs"
  shows "sorted_wrt (\<lambda>a b. cmp a b \<le> 0) (sort_insert cmp x xs)"
  using assms(2)
proof (induction xs)
  case Nil
  then show ?case by simp
next
  case (Cons y ys)
  from assms(1) have tot: "\<And>a b. cmp a b \<le> 0 \<or> cmp b a \<le> 0"
    and tr: "\<And>a b c. cmp a b \<le> 0 \<Longrightarrow> cmp b c \<le> 0 \<Longrightarrow> cmp a c \<le> 0"
    unfolding consistent_comparator_def by blast+
  show ?case
  proof (cases "cmp x y \<le> 0")
    case True
    with Cons.prems tr show ?thesis by auto
  next
    case False
    with tot have "cmp y x \<le> 0" by blast
    with False Cons show ?thesis by (auto simp: set_sort_insert)
  qed
qed

lemma set_array_sort: "set (array_sort cmp xs) = set xs"
  unfolding array_sort_def by (induction xs) (auto simp: set_sort_insert)

lemma distinct_array_sort: "distinct (array_sort cmp xs) = distinct xs"
  using set_array_sort[of cmp] unfolding array_sort_def
  by (induction xs) (auto simp: set_sort_insert distinct_sort_insert)

lemma sorted_array_sort:
  "consistent_comparator cmp \<Longrightarrow> sorted_wrt (\<lambda>a b. cmp a b \<le> 0) (array_sort cmp xs)"
  unfolding array_sort_def by (induction xs) (auto simp: sorted_sort_insert)

lemma set_fold_set_add: "set (fold (\<lambda>p s. set_add (f p) s) ps acc) = set acc \<union> f ` set ps"
  by (induction ps arbitrary: acc) (auto simp: set_add_def)

lemma distinct_fold_set_add:
  "distinct acc \<Longrightarrow> distinct (fold (\<lambda>p s. set_add (f p) s) ps acc)"
  by (induction ps arbitrary: acc) (auto simp: set_add_def)

lemma collect_forEach_ok:
  "\<forall>c \<in> set cs. data_participants c \<noteq> None \<Longrightarrow> distinct acc \<Longrightarrow>
   \<exists>r. collect_forEach cs acc = Inr r \<and> distinct r \<and>
       set r = set acc \<union> (\<Union>c \<in> set cs. set (participant_names c))"
proof (induction cs arbitrary: acc)
  case Nil
  then show ?case by simp
next
  case (Cons c cs)
  then obtain ps where ps: "data_participants c = Some ps" by auto
  let ?acc = "fold (\<lambda>p s. set_add (trim p) s) (split_comma ps) acc"
  have "distinct ?acc" using Cons.prems(2) by (rule distinct_fold_set_add)
  moreover have "\<forall>c \<in> set cs. data_participants c \<noteq> None" using Cons.prems(1) by simp
  ultimately obtain r where r: "collect_forEach cs ?acc = Inr r" "distinct r"
    "set r = set ?acc \<union> (\<Union>c \<in> set cs. set (participant_names c))"
    using Cons.IH by blast
  show ?case using r ps by (auto simp: set_fold_set_add participant_names_def)
qed

lemma collect_forEach_throws:
  "\<exists>c \<in> set cs. data_participants c = None \<Longrightarrow> collect_forEach cs acc = Inl TypeError"
  by (induction cs arbitrary: acc) (auto split: option.splits)

lemma lex_compare_total: "lex_compare a b \<le> 0 \<or> lex_compare b a \<le> 0"
  by (induction a b rule: lex_compare.induct) auto

lemma lex_compare_trans:
  "lex_compare a b \<le> 0 \<Longrightarrow> lex_compare b c \<le> 0 \<Longrightarrow> lex_compare a c \<le> 0"
proof (induction a b arbitrary: c rule: lex_compare.induct)
  case 1
  then show ?case by simp
next
  case (2 y ys)
  then show ?case by (cases c) auto
next
  case (3 x xs)
  then show ?case by simp
next
  case (4 x xs y ys)
  from "4.prems"(2) obtain z zs where c: "c = z # zs" by (cases c) auto
  from "4.prems"(1) have xy: "x < y \<or> (x = y \<and> lex_compare xs ys \<le> 0)"
    by (simp split: if_splits)
  from "4.prems"(2) c have yz: "y < z \<or> (y = z \<and> lex_compare ys zs \<le> 0)"
    by (simp split: if_splits)
  show ?case
  proof (cases "x < z")
    case True
    then show ?thesis by (simp add: c)
  next
    case False
    with xy yz have eq: "x = y" "y = z"
      and le: "lex_compare xs ys \<le> 0" "lex_compare ys zs \<le> 0"
      by auto
    from eq le "4.IH"[of zs] have "lex_compare xs zs \<le> 0" by simp
    with eq show ?thesis by (simp add: c)
  qed
qed

lemma consistent_localeCompare_es_base: "consistent_comparator localeCompare_es_base"
  unfolding consistent_comparator_def localeCompare_es_base_def
  using lex_compare_total lex_compare_trans by blast

lemmas page_eval =
  markup_page_def markup_card_def js_def split_comma_def trim_def isWhiteSpace_def
  set_add_def participant_names_def

lemma collect_page_beto_ana:
  "collectParticipants localeCompare_es_base page_beto_ana
     = Inr [js ''Ana'', js ''ana'', js ''beto'']"
  by (simp add: collectParticipants_def page_beto_ana_def page_eval array_sort_def
      localeCompare_es_base_def base_weight_def)

text \<open>
  C3 (as the code has it). When every card carries a participant list and the collation is
  a consistent comparator, collectParticipants returns the union of the cards' comma-split,
  trimmed names, free of duplicates under exact string equality, in collation order. On the
  lists \<open>beto, Ana\<close> and \<open>ana\<close> it returns \<open>Ana\<close>, \<open>ana\<close>, \<open>beto\<close>: names that differ only
  in case stay separate entries, in their order of first appearance.
\<close>

theorem collectParticipants_union_sorted:
  assumes "consistent_comparator localeCompare"
    and "\<forall>c \<in> set (videoCards g). data_participants c \<noteq> None"
  shows "(\<exists>names. collectParticipants localeCompare g = Inr names \<and>
            set names = (\<Union>c \<in> set (videoCards g). set (participant_names c)) \<and>
            distinct names \<and>
            sorted_wrt (\<lambda>a b. localeCompare a b \<le> 0) names) \<and>
         collectParticipants localeCompare_es_base page_beto_ana
           = Inr [js ''Ana'', js ''ana'', js ''beto'']"
proof -
  from collect_forEach_ok[OF assms(2), of "[]"]
  obtain r where r: "collect_forEach (videoCards g) [] = Inr r" "distinct r"
    "set r = (\<Union>c \<in> set (videoCards g). set (participant_names c))"
    by auto
  have "collectParticipants localeCompare g = Inr (array_sort localeCompare r)"
    by (simp add: collectParticipants_def r(1))
  with r assms(1) show ?thesis
    by (simp add: set_array_sort distinct_array_sort sorted_array_sort collect_page_beto_ana)
qed

theorem collectParticipants_union_sorted_witness:
  "consistent_comparator localeCompare_es_base \<and>
   list_all (\<lambda>c. data_participants c \<noteq> None) (videoCards page_beto_ana) \<and>
   (\<exists>names. collectParticipants localeCompare_es_base page_beto_ana = Inr names \<and>
      set names = (\<Union>c \<in> set (videoCards page_beto_ana). set (participant_names c)) \<and>
      distinct names \<and>
      sorted_wrt (\<lambda>a b. localeCompare_es_base a b \<le> 0) names)"
proof -
  have h: "\<forall>c \<in> set (videoCards page_beto_ana). data_participants c \<noteq> None"
    by (simp add: page_beto_ana_def page_eval)
  from collectParticipants_union_sorted[OF consistent_localeCompare_es_base h]
  moreover have "list_all (\<lambda>c. data_participants c \<noteq> None) (videoCards page_beto_ana)"
    using h by (simp add: list_all_iff)
  ultimately show ?thesis using consistent_localeCompare_es_base by blast
qed

theorem collectParticipants_case_counterexample:
  "collectParticipants localeCompare_es_base page_beto_ana
     = Inr [js ''Ana'', js ''ana'', js ''beto''] \<and>
   collectParticipants localeCompare_es_base page_beto_ana \<noteq> Inr [js ''Ana'', js ''Beto'']"
  by (simp add: collectParticipants_def page_beto_ana_def page_eval array_sort_def
      localeCompare_es_base_def base_weight_def)

section \<open>Expanding, collapsing and filtering one card\<close>

lemma remove_iframe_fields [simp]:
  "data_participants (remove_iframe c) = data_participants c"
  "data_videoId (remove_iframe c) = data_videoId c"
  "data_expanded (remove_iframe c) = data_expanded c"
  "hidden (remove_iframe c) = hidden c"
  "title_textContent (remove_iframe c) = title_textContent c"
  "thumbnail_aria_expanded (remove_iframe c) = thumbnail_aria_expanded c"
  "embed_hidden (remove_iframe c) = embed_hidden c"
  "player_classList (remove_iframe c) = player_classList c"
  "chips (remove_iframe c) = chips c"
  "player_iframes (remove_iframe c) = tl (player_iframes c)"
  by (simp_all add: remove_iframe_def split: list.splits)

lemma collapse_card_fields [simp]:
  "data_participants (collapse_card c) = data_participants c"
  "data_videoId (collapse_card c) = data_videoId c"
  "data_expanded (collapse_card c) = None"
  "hidden (collapse_card c) = hidden c"
  "title_textContent (collapse_card c) = title_textContent c"
  "thumbnail_aria_expanded (collapse_card c) = Some (js ''false'')"
  "embed_hidden (collapse_card c) = True"
  "player_classList (collapse_card c) = player_classList c"
  "chips (collapse_card c) = chips c"
  "player_iframes (collapse_card c) = tl (player_iframes c)"
  by (simp_all add: collapse_card_def)

lemma expand_card_fields [simp]:
  "data_participants (expand_card c) = data_participants c"
  "data_videoId (expand_card c) = data_videoId c"
  "data_expanded (expand_card c) = Some (js ''true'')"
  "hidden (expand_card c) = hidden c"
  "title_textContent (expand_card c) = title_textContent c"
  "thumbnail_aria_expanded (expand_card c) = Some (js ''true'')"
  "embed_hidden (expand_card c) = False"
  "chips (expand_card c) = chips c"
  "length (player_iframes (expand_card c)) = Suc (length (player_iframes c))"
  by (simp_all add: expand_card_def loadYouTubeEmbed_def Let_def)

lemma js_true_false [simp]: "js ''false'' \<noteq> js ''true''" "js ''true'' \<noteq> js ''false''"
  by (simp_all add: js_def)

lemma expanded_collapse_card [simp]: "\<not> expanded (collapse_card c)"
  by (simp add: expanded_def)

lemma expanded_expand_card [simp]: "expanded (expand_card c)"
  by (simp add: expanded_def)

lemma toggle_collapse:
  "expanded (videoCards g ! i) \<Longrightarrow>
   toggleVideoCard g i = g\<lparr>videoCards := (videoCards g)[i := collapse_card (videoCards g ! i)]\<rparr>"
  by (simp add: toggleVideoCard_def Let_def expanded_def collapse_card_def)

lemma others_map:
  assumes "\<not> expanded (cs ! i)" "i < length cs"
  shows "map (\<lambda>(j, otherCard).
                   if j \<noteq> i then
                     (if thumbnail_aria_expanded otherCard = Some (js ''true'')
                      then remove_iframe
                             (otherCard\<lparr>thumbnail_aria_expanded := Some (js ''false''),
                                         embed_hidden := True,
                                         data_expanded := None\<rparr>)
                      else otherCard)
                   else otherCard) (enumerate 0 cs)
         = map (\<lambda>c. if expanded c then collapse_card c else c) cs"
  using assms
  by (intro nth_equalityI) (auto simp: nth_enumerate_eq expanded_def collapse_card_def)

lemma toggle_expand:
  assumes "\<not> expanded (videoCards g ! i)" "i < length (videoCards g)"
  shows "toggleVideoCard g i =
     g\<lparr>videoCards := (map (\<lambda>c. if expanded c then collapse_card c else c) (videoCards g))
                        [i := expand_card (videoCards g ! i)],
       scroll_timers := scroll_timers g @ [i]\<rparr>"
proof -
  have "thumbnail_aria_expanded (videoCards g ! i) \<noteq> Some (js ''true'')"
    using assms(1) by (simp add: expanded_def)
  then show ?thesis
    using assms
    by (simp add: toggleVideoCard_def Let_def others_map[OF assms] expand_card_def)
qed

lemma callback_None:
  "data_participants (videoCards g ! i) = None \<Longrightarrow>
   filterVideos_callback q sel i (g, n) = Inl (TypeError, g)"
  by (simp add: filterVideos_callback_def)

lemma callback_Some:
  assumes "i < length (videoCards g)" "data_participants (videoCards g ! i) \<noteq> None"
  shows "filterVideos_callback q sel i (g, n) =
     Inr (g\<lparr>videoCards := (videoCards g)[i := filter_card q sel (videoCards g ! i)]\<rparr>,
          if selected sel (videoCards g ! i) then n + 1 else n)"
proof -
  from assms(2) obtain ps where ps: "data_participants (videoCards g ! i) = Some ps" by auto
  show ?thesis
  proof (cases "selected sel (videoCards g ! i)")
    case True
    then show ?thesis using ps
      by (auto simp add: filterVideos_callback_def Let_def filter_card_def selected_def participant_names_def)
  next
    case False
    then have ns: "\<not> (sel = [] \<or> sel \<in> set (map trim (split_comma ps)))"
      using ps by (simp add: selected_def participant_names_def)
    show ?thesis
    proof (cases "expanded (videoCards g ! i)")
      case True
      then have e: "expanded ((videoCards g)[i := (videoCards g ! i)\<lparr>hidden := True\<rparr>] ! i)"
        using assms(1) by (simp add: expanded_def)
      show ?thesis using ps ns False True assms(1) e
        by (simp add: filterVideos_callback_def Let_def filter_card_def toggle_collapse expanded_def[symmetric])
    next
      case nexp: False
      then show ?thesis using ps ns False assms(1)
        by (simp add: filterVideos_callback_def Let_def filter_card_def expanded_def)
    qed
  qed
qed


lemma filter_card_participants [simp]:
  "data_participants (filter_card q sel c) = data_participants c"
  by (simp add: filter_card_def)

lemma forEach_ok:
  assumes "\<forall>i \<in> set is. i < length (videoCards g)" and "distinct is"
    and "\<forall>c \<in> set (videoCards g). data_participants c \<noteq> None"
  shows "filterVideos_forEach q sel is (g, n) =
     Inr (g\<lparr>videoCards := map (\<lambda>(j, c). if j \<in> set is then filter_card q sel c else c)
                              (enumerate 0 (videoCards g))\<rparr>,
          n + length (filter (\<lambda>i. selected sel (videoCards g ! i)) is))"
  using assms
proof (induction "is" arbitrary: g n)
  case Nil
  have "map (\<lambda>(j, c). c) (enumerate 0 (videoCards g)) = videoCards g"
    by (intro nth_equalityI) (simp_all add: nth_enumerate_eq)
  then show ?case by simp
next
  case (Cons i rest)
  let ?cs = "videoCards g"
  let ?g1 = "g\<lparr>videoCards := ?cs[i := filter_card q sel (?cs ! i)]\<rparr>"
  let ?n1 = "if selected sel (?cs ! i) then n + 1 else n"
  from Cons.prems have i: "i < length ?cs" and some: "data_participants (?cs ! i) \<noteq> None"
    by auto
  have cb: "filterVideos_callback q sel i (g, n) = Inr (?g1, ?n1)"
    by (rule callback_Some[OF i some])
  have p1: "\<forall>j \<in> set rest. j < length (videoCards ?g1)" using Cons.prems(1) by simp
  have p2: "distinct rest" using Cons.prems(2) by simp
  have p3: "\<forall>c \<in> set (videoCards ?g1). data_participants c \<noteq> None"
  proof
    fix c assume "c \<in> set (videoCards ?g1)"
    then have "c \<in> insert (filter_card q sel (?cs ! i)) (set ?cs)"
      using set_update_subset_insert[of ?cs i] by auto
    then show "data_participants c \<noteq> None" using Cons.prems(3) some by auto
  qed
  have notin: "i \<notin> set rest" using Cons.prems(2) by simp
  have cards: "map (\<lambda>(j, c). if j \<in> set rest then filter_card q sel c else c)
                  (enumerate 0 (videoCards ?g1))
             = map (\<lambda>(j, c). if j \<in> set (i # rest) then filter_card q sel c else c)
                  (enumerate 0 ?cs)"
    using notin i by (intro nth_equalityI) (auto simp: nth_enumerate_eq nth_list_update)
  have cnt: "filter (\<lambda>j. selected sel (videoCards ?g1 ! j)) rest
           = filter (\<lambda>j. selected sel (?cs ! j)) rest"
    using notin i by (intro filter_cong) (auto simp: nth_list_update)
  have "filterVideos_forEach q sel (i # rest) (g, n) = filterVideos_forEach q sel rest (?g1, ?n1)"
    by (simp add: cb)
  also have "\<dots> = Inr (?g1\<lparr>videoCards := map (\<lambda>(j, c). if j \<in> set rest then filter_card q sel c else c)
                              (enumerate 0 (videoCards ?g1))\<rparr>,
          ?n1 + length (filter (\<lambda>j. selected sel (videoCards ?g1 ! j)) rest))"
    by (rule Cons.IH[OF p1 p2 p3])
  also have "\<dots> = Inr (g\<lparr>videoCards := map (\<lambda>(j, c). if j \<in> set (i # rest) then filter_card q sel c else c)
                              (enumerate 0 ?cs)\<rparr>,
          n + length (filter (\<lambda>j. selected sel (?cs ! j)) (i # rest)))"
    unfolding cards cnt by simp
  finally show ?case .
qed

lemma forEach_throws:
  assumes "\<forall>i \<in> set is. i < length (videoCards g)" and "distinct is"
    and "\<exists>i \<in> set is. data_participants (videoCards g ! i) = None"
  shows "\<exists>g'. filterVideos_forEach q sel is (g, n) = Inl (TypeError, g')"
  using assms
proof (induction "is" arbitrary: g n)
  case Nil
  then show ?case by simp
next
  case (Cons i rest)
  let ?cs = "videoCards g"
  show ?case
  proof (cases "data_participants (?cs ! i)")
    case None
    then show ?thesis by (simp add: callback_None)
  next
    case (Some ps)
    let ?g1 = "g\<lparr>videoCards := ?cs[i := filter_card q sel (?cs ! i)]\<rparr>"
    let ?n1 = "if selected sel (?cs ! i) then n + 1 else n"
    from Cons.prems have i: "i < length ?cs" by simp
    have cb: "filterVideos_callback q sel i (g, n) = Inr (?g1, ?n1)"
      using callback_Some[OF i] Some by simp
    from Cons.prems(3) Some obtain j where j: "j \<in> set rest" "data_participants (?cs ! j) = None"
      by auto
    with Cons.prems(2) have "j \<noteq> i" by auto
    then have "data_participants (videoCards ?g1 ! j) = None"
      using j(2) by simp
    with j(1) have "\<exists>j \<in> set rest. data_participants (videoCards ?g1 ! j) = None"
      by blast
    moreover have "\<forall>j \<in> set rest. j < length (videoCards ?g1)" using Cons.prems(1) by simp
    moreover have "distinct rest" using Cons.prems(2) by simp
    ultimately obtain g' where "filterVideos_forEach q sel rest (?g1, ?n1) = Inl (TypeError, g')"
      using Cons.IH by blast
    then show ?thesis by (simp add: cb)
  qed
qed

lemma count_selected:
  "length (filter (\<lambda>i. P (cs ! i)) [0..<length cs]) = length (filter P cs)"
proof -
  have "filter P cs = filter P (map (nth cs) [0..<length cs])" by (simp add: map_nth)
  also have "\<dots> = map (nth cs) (filter (\<lambda>i. P (cs ! i)) [0..<length cs])"
    by (simp add: filter_map comp_def)
  finally show ?thesis by simp
qed

lemma filterVideos_with_ok:
  assumes "\<forall>c \<in> set (videoCards g). data_participants c \<noteq> None"
  shows "filterVideos_with q g sel =
     Inr (g\<lparr>videoCards := map (filter_card q sel) (videoCards g),
            emptyState_hidden := (filter (selected sel) (videoCards g) \<noteq> [])\<rparr>)"
proof -
  let ?cs = "videoCards g"
  have m: "map (\<lambda>(j, c). if j < length ?cs then filter_card q sel c else c)
             (enumerate 0 ?cs) = map (filter_card q sel) ?cs"
    by (intro nth_equalityI) (simp_all add: nth_enumerate_eq)
  have "filterVideos_forEach q sel [0..<length ?cs] (g, 0) =
     Inr (g\<lparr>videoCards := map (filter_card q sel) ?cs\<rparr>, length (filter (selected sel) ?cs))"
    using forEach_ok[of "[0..<length ?cs]" g q sel 0] assms
    by (simp add: m count_selected)
  then show ?thesis by (simp add: filterVideos_with_def)
qed

lemma filterVideos_with_throws:
  assumes "\<exists>c \<in> set (videoCards g). data_participants c = None"
  shows "\<exists>g'. filterVideos_with q g sel = Inl (TypeError, g')"
proof -
  from assms obtain i where "i < length (videoCards g)" "data_participants (videoCards g ! i) = None"
    by (auto simp: in_set_conv_nth)
  then have "\<exists>i \<in> set [0..<length (videoCards g)]. data_participants (videoCards g ! i) = None"
    by auto
  from forEach_throws[OF _ _ this, of q sel 0]
  obtain g' where "filterVideos_forEach q sel [0..<length (videoCards g)] (g, 0) = Inl (TypeError, g')"
    by auto
  then show ?thesis by (simp add: filterVideos_with_def)
qed

section \<open>Properties of filtering\<close>

text \<open>
  C1. When every card carries a participant list, filterVideos (with the selector of either
  script) returns, and afterwards a card is shown exactly when the selection is empty or
  occurs among the card's trimmed names; a card that ends hidden and was expanded is
  collapsed: aria-expanded is \<open>false\<close>, the embed container is hidden, the data-expanded
  marker is gone and the first iframe of its player is removed, its chips untouched.
\<close>

theorem filterVideos_visibility:
  assumes "\<forall>c \<in> set (videoCards g). data_participants c \<noteq> None"
  shows "\<exists>g'. filterVideos_with q g sel = Inr g' \<and>
           length (videoCards g') = length (videoCards g) \<and>
           (\<forall>i < length (videoCards g).
              (\<not> hidden (videoCards g' ! i) \<longleftrightarrow>
                 sel = [] \<or> sel \<in> set (participant_names (videoCards g ! i))) \<and>
              (hidden (videoCards g' ! i) \<and> expanded (videoCards g ! i) \<longrightarrow>
                 videoCards g' ! i = collapse_card ((videoCards g ! i)\<lparr>hidden := True\<rparr>) \<and>
                 thumbnail_aria_expanded (videoCards g' ! i) = Some (js ''false'') \<and>
                 embed_hidden (videoCards g' ! i) \<and>
                 data_expanded (videoCards g' ! i) = None \<and>
                 player_iframes (videoCards g' ! i) = tl (player_iframes (videoCards g ! i)) \<and>
                 chips (videoCards g' ! i) = chips (videoCards g ! i)))"
  by (simp add: filterVideos_with_ok[OF assms] filter_card_def selected_def)

text \<open>
  C6. After filterVideos the "no results" placeholder is shown exactly when no card is
  shown, that is, exactly when the selection matches no card.
\<close>

theorem filterVideos_placeholder:
  assumes "\<forall>c \<in> set (videoCards g). data_participants c \<noteq> None"
  shows "\<exists>g'. filterVideos_with q g sel = Inr g' \<and>
           (\<not> emptyState_hidden g' \<longleftrightarrow> filter (\<lambda>c. \<not> hidden c) (videoCards g') = []) \<and>
           (\<not> emptyState_hidden g' \<longleftrightarrow> (\<forall>c \<in> set (videoCards g). \<not> selected sel c))"
proof -
  have h: "\<And>c. hidden (filter_card q sel c) \<longleftrightarrow> \<not> selected sel c"
    by (simp add: filter_card_def)
  show ?thesis
    by (simp add: filterVideos_with_ok[OF assms] filter_empty_conv h)
qed


lemma generateChips_forEach_throws:
  "\<exists>c \<in> set cs. data_participants c = None \<Longrightarrow>
   \<exists>cs'. generateChips_forEach cs = (Some TypeError, cs')"
proof (induction cs)
  case Nil
  then show ?case by simp
next
  case (Cons c cs)
  show ?case
  proof (cases "data_participants c")
    case None
    then show ?thesis by (simp add: generateChips_def)
  next
    case (Some ps)
    with Cons.prems have "\<exists>c \<in> set cs. data_participants c = None" by auto
    with Cons.IH obtain cs' where "generateChips_forEach cs = (Some TypeError, cs')" by blast
    with Some show ?thesis by (simp add: generateChips_def Let_def)
  qed
qed

lemma init_throws:
  assumes "\<exists>c \<in> set (videoCards g). data_participants c = None"
  shows "\<exists>g'. init localeCompare g = Inl (TypeError, g')"
proof -
  from generateChips_forEach_throws[OF assms]
  obtain cs' where "generateChips_forEach (videoCards g) = (Some TypeError, cs')" by blast
  then show ?thesis by (simp add: init_def)
qed

text \<open>
  C9. When some card lacks the participant list, collectParticipants and filterVideos do
  not return: both end in the TypeError, and so do the callers of collectParticipants,
  populateFilterDropdown and init, which catch nothing.
\<close>

theorem missing_participants_fault:
  assumes "\<exists>c \<in> set (videoCards g). data_participants c = None"
  shows "collectParticipants localeCompare g = Inl TypeError \<and>
         (\<exists>g'. filterVideos_with q g sel = Inl (TypeError, g')) \<and>
         populateFilterDropdown localeCompare g = Inl (TypeError, g) \<and>
         (\<exists>g'. init localeCompare g = Inl (TypeError, g'))"
  using collect_forEach_throws[OF assms] filterVideos_with_throws[OF assms] init_throws[OF assms]
  by (simp add: collectParticipants_def populateFilterDropdown_def)

lemma tl_single: "length xs = Suc 0 \<Longrightarrow> tl xs = []"
  by (cases xs) auto

lemma page_ana_carla_cards:
  "length (videoCards page_ana_carla) = 2"
  "\<not> expanded (videoCards page_ana_carla ! 0)"
  "\<not> expanded (videoCards page_ana_carla ! 1)"
  "player_iframes (videoCards page_ana_carla ! 1) = []"
  by (simp_all add: page_ana_carla_def markup_page_def markup_card_def expanded_def)

lemma page_playing_cards:
  "length (videoCards page_playing) = 2"
  "\<not> expanded (videoCards page_playing ! 0)"
  "expanded (videoCards page_playing ! 1)"
  "length (player_iframes (videoCards page_playing ! 1)) = 1"
  by (simp_all add: page_playing_def markup_page_def markup_card_def expanded_def)

lemma page_playing_participants:
  "\<forall>c \<in> set (videoCards page_playing). data_participants c \<noteq> None"
  by (simp add: page_playing_def markup_page_def markup_card_def)

theorem filterVideos_visibility_witness:
  "\<exists>g'. filterVideos page_playing (js ''Beto'') = Inr g' \<and>
      \<not> hidden (videoCards g' ! 0) \<and>
      hidden (videoCards g' ! 1) \<and>
      videoCards g' ! 1 = collapse_card ((videoCards page_playing ! 1)\<lparr>hidden := True\<rparr>) \<and>
      thumbnail_aria_expanded (videoCards g' ! 1) = Some (js ''false'') \<and>
      embed_hidden (videoCards g' ! 1) \<and>
      data_expanded (videoCards g' ! 1) = None \<and>
      length (player_iframes (videoCards page_playing ! 1)) = 1 \<and>
      player_iframes (videoCards g' ! 1) = []"
proof -
  have n0: "js ''Beto'' \<in> set (participant_names (videoCards page_playing ! 0))"
    by (simp add: page_playing_def page_eval)
  have n1: "js ''Beto'' \<notin> set (participant_names (videoCards page_playing ! 1))"
    by (simp add: page_playing_def page_eval)
  have e1: "expanded (videoCards page_playing ! 1)"
    by (simp add: page_playing_def markup_page_def)
  have l: "length (videoCards page_playing) = 2"
    by (simp add: page_playing_def markup_page_def)
  have ne: "js ''Beto'' \<noteq> []" by (simp add: js_def)
  have p1: "length (player_iframes (videoCards page_playing ! 1)) = 1"
    by (rule page_playing_cards(4))
  then have t1: "tl (player_iframes (videoCards page_playing ! 1)) = []"
    by (simp add: tl_single)
  from filterVideos_visibility[OF page_playing_participants, of chip_not_expand "js ''Beto''"]
  obtain g' where g': "filterVideos_with chip_not_expand page_playing (js ''Beto'') = Inr g'"
    and v: "\<forall>i < length (videoCards page_playing).
              (\<not> hidden (videoCards g' ! i) \<longleftrightarrow>
                 js ''Beto'' = [] \<or> js ''Beto'' \<in> set (participant_names (videoCards page_playing ! i))) \<and>
              (hidden (videoCards g' ! i) \<and> expanded (videoCards page_playing ! i) \<longrightarrow>
                 videoCards g' ! i = collapse_card ((videoCards page_playing ! i)\<lparr>hidden := True\<rparr>) \<and>
                 thumbnail_aria_expanded (videoCards g' ! i) = Some (js ''false'') \<and>
                 embed_hidden (videoCards g' ! i) \<and>
                 data_expanded (videoCards g' ! i) = None \<and>
                 player_iframes (videoCards g' ! i) = tl (player_iframes (videoCards page_playing ! i)) \<and>
                 chips (videoCards g' ! i) = chips (videoCards page_playing ! i))"
    by blast
  from v[rule_format, of 0] l n0 ne have v0: "\<not> hidden (videoCards g' ! 0)" by simp
  from v[rule_format, of 1] l n1 ne have h1: "hidden (videoCards g' ! 1)" by simp
  from v[rule_format, of 1] l h1 e1
  have c1: "videoCards g' ! 1 = collapse_card ((videoCards page_playing ! 1)\<lparr>hidden := True\<rparr>)"
    "thumbnail_aria_expanded (videoCards g' ! 1) = Some (js ''false'')"
    "embed_hidden (videoCards g' ! 1)"
    "data_expanded (videoCards g' ! 1) = None"
    "player_iframes (videoCards g' ! 1) = tl (player_iframes (videoCards page_playing ! 1))"
    by simp_all
  from g' have "filterVideos page_playing (js ''Beto'') = Inr g'" by (simp add: filterVideos_def)
  with v0 h1 c1 p1 t1 show ?thesis by (intro exI[of _ g']) (simp only: simp_thms)
qed

theorem filterVideos_placeholder_witness:
  "(\<exists>g'. filterVideos page_playing (js ''Zoe'') = Inr g' \<and> \<not> emptyState_hidden g') \<and>
   (\<exists>g'. filterVideos page_playing (js ''Ana'') = Inr g' \<and> emptyState_hidden g')"
proof -
  have z: "\<forall>c \<in> set (videoCards page_playing). \<not> selected (js ''Zoe'') c"
    by (simp add: page_playing_def selected_def page_eval expand_card_def loadYouTubeEmbed_def)
  have a: "\<not> (\<forall>c \<in> set (videoCards page_playing). \<not> selected (js ''Ana'') c)"
    by (simp add: page_playing_def selected_def page_eval)
  from filterVideos_placeholder[OF page_playing_participants, of chip_not_expand "js ''Zoe''"] z
  have 1: "\<exists>g'. filterVideos page_playing (js ''Zoe'') = Inr g' \<and> \<not> emptyState_hidden g'"
    unfolding filterVideos_def by blast
  from filterVideos_placeholder[OF page_playing_participants, of chip_not_expand "js ''Ana''"] a
  have 2: "\<exists>g'. filterVideos page_playing (js ''Ana'') = Inr g' \<and> emptyState_hidden g'"
    unfolding filterVideos_def by blast
  from 1 2 show ?thesis by blast
qed

lemmas run_eval =
  page_eval settle_def init_def generateChips_def populateFilterDropdown_def
  collectParticipants_def array_sort_def localeCompare_es_base_def base_weight_def Let_def
  new_chip_def new_expandBtn_def MAX_VISIBLE_CHIPS_def more_label_def more_title_def
  number_toString_def decimal.simps classList_add_def classList_remove_def filterVideos_def
  filterVideos_with_def filterVideos_callback_def highlight_chip_def chip_not_expand_def
  toggleVideoCard_def highlighted_def chip_hidden_def toggleChips_def querySelectorAll_def

lemmas page_ana_eval =
  page_ana_def page_carla_def page_loaded_def page_ana_carla_def run_eval upt_rec


lemma page_ana_state:
  "map hidden (videoCards page_ana) = [False, True]"
  by (simp add: page_ana_eval)


theorem missing_participants_fault_witness:
  "collectParticipants localeCompare_es_base page_broken = Inl TypeError \<and>
   (\<exists>g'. filterVideos page_broken (js ''Ana'') = Inl (TypeError, g')) \<and>
   (\<exists>g'. init localeCompare_es_base page_broken = Inl (TypeError, g'))"
proof -
  have "\<exists>c \<in> set (videoCards page_broken). data_participants c = None"
    by (simp add: page_broken_def markup_page_def markup_card_def)
  from missing_participants_fault[OF this, of localeCompare_es_base chip_not_expand "js ''Ana''"]
  show ?thesis by (simp add: filterVideos_def)
qed

section \<open>Properties of expansion\<close>

lemma length_toggleVideoCard [simp]:
  "length (videoCards (toggleVideoCard g i)) = length (videoCards g)"
  by (simp add: toggleVideoCard_def Let_def)

lemma expand_card_iframes: "player_iframes (expand_card c) \<noteq> []"
  by (simp add: expand_card_def loadYouTubeEmbed_def Let_def)

lemma tl_iframes_expand_card:
  "player_iframes c = [] \<Longrightarrow> tl (player_iframes (expand_card c)) = []"
  by (simp add: expand_card_def loadYouTubeEmbed_def Let_def)

text \<open>
  C10. A collapsed card with an empty player container, toggled twice, is collapsed again:
  the first toggle expands it and puts one iframe in its player, the second leaves
  aria-expanded at \<open>false\<close>, the embed container hidden, no data-expanded marker and no
  iframe, exactly as the explicit collapse of the expanded card does.
\<close>

theorem toggle_twice_collapsed:
  assumes "i < length (videoCards g)" and "\<not> expanded (videoCards g ! i)"
    and "player_iframes (videoCards g ! i) = []"
  shows "expanded (videoCards (toggleVideoCard g i) ! i) \<and>
         length (player_iframes (videoCards (toggleVideoCard g i) ! i)) = 1 \<and>
         thumbnail_aria_expanded (videoCards (toggleVideoCard (toggleVideoCard g i) i) ! i)
           = Some (js ''false'') \<and>
         embed_hidden (videoCards (toggleVideoCard (toggleVideoCard g i) i) ! i) \<and>
         data_expanded (videoCards (toggleVideoCard (toggleVideoCard g i) i) ! i) = None \<and>
         player_iframes (videoCards (toggleVideoCard (toggleVideoCard g i) i) ! i) = [] \<and>
         videoCards (toggleVideoCard (toggleVideoCard g i) i) ! i
           = collapse_card (videoCards (toggleVideoCard g i) ! i)"
proof -
  let ?g1 = "toggleVideoCard g i"
  have c1: "videoCards ?g1 ! i = expand_card (videoCards g ! i)"
    using assms(1,2) by (simp add: toggle_expand)
  then have e1: "expanded (videoCards ?g1 ! i)" by simp
  have i1: "i < length (videoCards ?g1)" using assms(1) by simp
  have c2: "videoCards (toggleVideoCard ?g1 i) ! i = collapse_card (videoCards ?g1 ! i)"
    using i1 by (simp add: toggle_collapse[OF e1])
  show ?thesis
    unfolding c2 using e1 assms(3) by (simp add: c1 tl_iframes_expand_card)
qed

lemma escape_fold:
  assumes "\<forall>i \<in> set is. i < length (videoCards g)"
  shows "fold (\<lambda>i g'. if thumbnail_aria_expanded (videoCards g' ! i) = Some (js ''true'')
                      then toggleVideoCard g' i else g') is g
       = g\<lparr>videoCards := map (\<lambda>(j, c). if j \<in> set is \<and> expanded c then collapse_card c else c)
                             (enumerate 0 (videoCards g))\<rparr>"
  using assms
proof (induction "is" arbitrary: g)
  case Nil
  have "map (\<lambda>(j, c). c) (enumerate 0 (videoCards g)) = videoCards g"
    by (intro nth_equalityI) (simp_all add: nth_enumerate_eq)
  then show ?case by simp
next
  case (Cons i rest)
  let ?cs = "videoCards g"
  let ?F = "\<lambda>i g'. if thumbnail_aria_expanded (videoCards g' ! i) = Some (js ''true'')
                      then toggleVideoCard g' i else g'"
  let ?g1 = "g\<lparr>videoCards := (if expanded (?cs ! i) then ?cs[i := collapse_card (?cs ! i)] else ?cs)\<rparr>"
  from Cons.prems have i: "i < length ?cs" by simp
  have s1: "?F i g = ?g1"
    by (simp add: expanded_def[symmetric] toggle_collapse)
  have p: "\<forall>j \<in> set rest. j < length (videoCards ?g1)" using Cons.prems by simp
  have cards: "map (\<lambda>(j, c). if j \<in> set rest \<and> expanded c then collapse_card c else c)
                  (enumerate 0 (videoCards ?g1))
             = map (\<lambda>(j, c). if j \<in> set (i # rest) \<and> expanded c then collapse_card c else c)
                  (enumerate 0 ?cs)"
  proof (cases "expanded (?cs ! i)")
    case True
    then show ?thesis
      using i by (intro nth_equalityI) (auto simp: nth_enumerate_eq nth_list_update)
  next
    case False
    then show ?thesis
      using i by (intro nth_equalityI) (auto simp: nth_enumerate_eq)
  qed
  have "fold ?F (i # rest) g = fold ?F rest ?g1" using s1 by simp
  also have "\<dots> = ?g1\<lparr>videoCards := map (\<lambda>(j, c). if j \<in> set rest \<and> expanded c then collapse_card c else c)
                  (enumerate 0 (videoCards ?g1))\<rparr>"
    by (rule Cons.IH[OF p])
  also have "\<dots> = g\<lparr>videoCards := map (\<lambda>(j, c). if j \<in> set (i # rest) \<and> expanded c then collapse_card c else c)
                  (enumerate 0 ?cs)\<rparr>"
    unfolding cards by simp
  finally show ?case .
qed

lemma escape_all:
  "keydown_document (js ''Escape'') g =
     g\<lparr>videoCards := map (\<lambda>c. if expanded c then collapse_card c else c) (videoCards g)\<rparr>"
proof -
  have "map (\<lambda>(j, c). if j \<in> set [0..<length (videoCards g)] \<and> expanded c then collapse_card c else c)
          (enumerate 0 (videoCards g))
      = map (\<lambda>c. if expanded c then collapse_card c else c) (videoCards g)"
    by (intro nth_equalityI) (simp_all add: nth_enumerate_eq)
  then show ?thesis
    using escape_fold[of "[0..<length (videoCards g)]" g]
    by (simp add: keydown_document_def)
qed

text \<open>
  C7. Escape on a page with no expanded card leaves the page as it is; on a page whose only
  expanded card is the one at position \<open>i\<close> it collapses that card (aria-expanded
  \<open>false\<close>, embed container hidden, no data-expanded marker, first iframe of the player
  removed) and changes nothing else: every other card and every other field stay.
\<close>

theorem escape_collapses_the_expanded:
  "((\<forall>c \<in> set (videoCards g). \<not> expanded c) \<longrightarrow> keydown_document (js ''Escape'') g = g) \<and>
   (i < length (videoCards g) \<and> expanded (videoCards g ! i) \<and>
    (\<forall>j < length (videoCards g). j \<noteq> i \<longrightarrow> \<not> expanded (videoCards g ! j)) \<longrightarrow>
      keydown_document (js ''Escape'') g
        = g\<lparr>videoCards := (videoCards g)[i := collapse_card (videoCards g ! i)]\<rparr> \<and>
      \<not> expanded (videoCards (keydown_document (js ''Escape'') g) ! i) \<and>
      thumbnail_aria_expanded (videoCards (keydown_document (js ''Escape'') g) ! i)
        = Some (js ''false'') \<and>
      embed_hidden (videoCards (keydown_document (js ''Escape'') g) ! i) \<and>
      data_expanded (videoCards (keydown_document (js ''Escape'') g) ! i) = None \<and>
      player_iframes (videoCards (keydown_document (js ''Escape'') g) ! i)
        = tl (player_iframes (videoCards g ! i)) \<and>
      (\<forall>j < length (videoCards g). j \<noteq> i \<longrightarrow>
         videoCards (keydown_document (js ''Escape'') g) ! j = videoCards g ! j))"
proof (intro conjI impI)
  assume a: "\<forall>c \<in> set (videoCards g). \<not> expanded c"
  then have "map (\<lambda>c. if expanded c then collapse_card c else c) (videoCards g) = videoCards g"
    by (simp add: map_idI)
  then show "keydown_document (js ''Escape'') g = g" by (simp add: escape_all)
next
  assume a: "i < length (videoCards g) \<and> expanded (videoCards g ! i) \<and>
    (\<forall>j < length (videoCards g). j \<noteq> i \<longrightarrow> \<not> expanded (videoCards g ! j))"
  then have m: "map (\<lambda>c. if expanded c then collapse_card c else c) (videoCards g)
     = (videoCards g)[i := collapse_card (videoCards g ! i)]"
    by (intro nth_equalityI) (auto simp: nth_list_update)
  then show e: "keydown_document (js ''Escape'') g
        = g\<lparr>videoCards := (videoCards g)[i := collapse_card (videoCards g ! i)]\<rparr>"
    by (simp add: escape_all)
  show "\<not> expanded (videoCards (keydown_document (js ''Escape'') g) ! i)"
    unfolding e using a by simp
  show "thumbnail_aria_expanded (videoCards (keydown_document (js ''Escape'') g) ! i)
        = Some (js ''false'')"
    unfolding e using a by simp
  show "embed_hidden (videoCards (keydown_document (js ''Escape'') g) ! i)"
    unfolding e using a by simp
  show "data_expanded (videoCards (keydown_document (js ''Escape'') g) ! i) = None"
    unfolding e using a by simp
  show "player_iframes (videoCards (keydown_document (js ''Escape'') g) ! i)
        = tl (player_iframes (videoCards g ! i))"
    unfolding e using a by simp
  show "\<forall>j < length (videoCards g). j \<noteq> i \<longrightarrow>
         videoCards (keydown_document (js ''Escape'') g) ! j = videoCards g ! j"
    unfolding e by simp
qed

theorem toggle_twice_collapsed_witness:
  "expanded (videoCards (toggleVideoCard page_ana_carla 1) ! 1) \<and>
   length (player_iframes (videoCards (toggleVideoCard page_ana_carla 1) ! 1)) = 1 \<and>
   thumbnail_aria_expanded (videoCards (toggleVideoCard (toggleVideoCard page_ana_carla 1) 1) ! 1)
     = Some (js ''false'') \<and>
   embed_hidden (videoCards (toggleVideoCard (toggleVideoCard page_ana_carla 1) 1) ! 1) \<and>
   data_expanded (videoCards (toggleVideoCard (toggleVideoCard page_ana_carla 1) 1) ! 1) = None \<and>
   player_iframes (videoCards (toggleVideoCard (toggleVideoCard page_ana_carla 1) 1) ! 1) = []"
proof -
  have "1 < length (videoCards page_ana_carla)" by (simp add: page_ana_carla_cards)
  from toggle_twice_collapsed[OF this page_ana_carla_cards(3,4)]
  show ?thesis by blast
qed

theorem escape_collapses_the_expanded_witness:
  "keydown_document (js ''Escape'') page_ana_carla = page_ana_carla \<and>
   keydown_document (js ''Escape'') page_playing
     = page_playing\<lparr>videoCards :=
         (videoCards page_playing)[1 := collapse_card (videoCards page_playing ! 1)]\<rparr> \<and>
   \<not> expanded (videoCards (keydown_document (js ''Escape'') page_playing) ! 1) \<and>
   thumbnail_aria_expanded (videoCards (keydown_document (js ''Escape'') page_playing) ! 1)
     = Some (js ''false'') \<and>
   embed_hidden (videoCards (keydown_document (js ''Escape'') page_playing) ! 1) \<and>
   data_expanded (videoCards (keydown_document (js ''Escape'') page_playing) ! 1) = None \<and>
   length (player_iframes (videoCards page_playing ! 1)) = 1 \<and>
   player_iframes (videoCards (keydown_document (js ''Escape'') page_playing) ! 1) = [] \<and>
   videoCards (keydown_document (js ''Escape'') page_playing) ! 0 = videoCards page_playing ! 0"
proof -
  have none: "\<forall>c \<in> set (videoCards page_ana_carla). \<not> expanded c"
    by (simp add: page_ana_carla_def markup_page_def markup_card_def expanded_def)
  have one: "1 < length (videoCards page_playing) \<and> expanded (videoCards page_playing ! 1) \<and>
    (\<forall>j < length (videoCards page_playing). j \<noteq> 1 \<longrightarrow> \<not> expanded (videoCards page_playing ! j))"
    using page_playing_cards by (auto simp: less_Suc_eq numeral_2_eq_2)
  have p1: "length (player_iframes (videoCards page_playing ! 1)) = 1"
    by (rule page_playing_cards(4))
  then have t1: "tl (player_iframes (videoCards page_playing ! 1)) = []"
    by (simp add: tl_single)
  have z: "0 < length (videoCards page_playing) \<and> (0::nat) \<noteq> 1"
    by (simp add: page_playing_cards)
  from escape_collapses_the_expanded[of page_ana_carla] none
  have a: "keydown_document (js ''Escape'') page_ana_carla = page_ana_carla" by blast
  from escape_collapses_the_expanded[of page_playing 1] one
  have b: "keydown_document (js ''Escape'') page_playing
        = page_playing\<lparr>videoCards :=
            (videoCards page_playing)[1 := collapse_card (videoCards page_playing ! 1)]\<rparr>"
    "\<not> expanded (videoCards (keydown_document (js ''Escape'') page_playing) ! 1)"
    "thumbnail_aria_expanded (videoCards (keydown_document (js ''Escape'') page_playing) ! 1)
        = Some (js ''false'')"
    "embed_hidden (videoCards (keydown_document (js ''Escape'') page_playing) ! 1)"
    "data_expanded (videoCards (keydown_document (js ''Escape'') page_playing) ! 1) = None"
    "player_iframes (videoCards (keydown_document (js ''Escape'') page_playing) ! 1)
        = tl (player_iframes (videoCards page_playing ! 1))"
    "\<forall>j < length (videoCards page_playing). j \<noteq> 1 \<longrightarrow>
         videoCards (keydown_document (js ''Escape'') page_playing) ! j = videoCards page_playing ! j"
    by blast+
  from b(7) z have c: "videoCards (keydown_document (js ''Escape'') page_playing) ! 0
      = videoCards page_playing ! 0" by blast
  from a b(1-5) p1 b(6)[unfolded t1] c show ?thesis by (intro conjI)
qed

section \<open>Exclusive expansion on reachable pages\<close>

lemma settles_to_refl [simp]: "settles_to c c"
  by (simp add: settles_to_def)

lemma settles_to_trans: "settles_to a b \<Longrightarrow> settles_to b c \<Longrightarrow> settles_to a c"
  by (auto simp: settles_to_def)

lemma settles_to_collapse: "settles_to c (if expanded c then collapse_card c else c)"
  by (simp add: settles_to_def)

lemma settles_to_collapse_card: "expanded c \<Longrightarrow> settles_to c (collapse_card c)"
  by (simp add: settles_to_def)

lemma settles_to_filter_card: "settles_to c (filter_card q sel c)"
  by (simp add: settles_to_def filter_card_def expanded_def)

lemma all_settle_refl [simp]: "list_all2 settles_to cs cs"
  by (simp add: list_all2_conv_all_nth)

lemma all_settle_trans:
  "list_all2 settles_to as bs \<Longrightarrow> list_all2 settles_to bs cs \<Longrightarrow> list_all2 settles_to as cs"
  using settles_to_trans by (rule list_all2_trans)

lemma all_settle_update:
  "settles_to (cs ! i) c' \<Longrightarrow> list_all2 settles_to cs (cs[i := c'])"
  by (cases "i < length cs") (auto simp: list_all2_conv_all_nth nth_list_update)

lemma expanded_count: "length (filter expanded cs) = card {i. i < length cs \<and> expanded (cs ! i)}"
  by (rule length_filter_conv_card)

lemma inv_settles:
  assumes "expansion_inv g" and "list_all2 settles_to (videoCards g) (videoCards g')"
  shows "expansion_inv g'"
proof -
  let ?cs = "videoCards g" and ?cs' = "videoCards g'"
  from assms(2) have len: "length ?cs' = length ?cs"
    and nth: "\<And>i. i < length ?cs \<Longrightarrow> settles_to (?cs ! i) (?cs' ! i)"
    by (auto simp: list_all2_conv_all_nth)
  have "{i. i < length ?cs' \<and> expanded (?cs' ! i)} \<subseteq> {i. i < length ?cs \<and> expanded (?cs ! i)}"
    using len nth by (auto simp: settles_to_def)
  then have "card {i. i < length ?cs' \<and> expanded (?cs' ! i)}
      \<le> card {i. i < length ?cs \<and> expanded (?cs ! i)}"
    by (intro card_mono) auto
  then have c: "length (filter expanded ?cs') \<le> 1"
    using assms(1) by (simp add: expansion_inv_def expanded_count)
  have "\<And>i. i < length ?cs' \<Longrightarrow> player_matches (?cs' ! i)"
  proof -
    fix i assume i: "i < length ?cs'"
    then have "player_matches (?cs ! i)"
      using assms(1) len by (simp add: expansion_inv_def list_all_length)
    with nth[of i] i len show "player_matches (?cs' ! i)"
      by (auto simp: settles_to_def player_matches_def tl_single split: if_splits)
  qed
  with c show ?thesis by (simp add: expansion_inv_def list_all_length)
qed

lemma inv_expand:
  assumes "expansion_inv g" and "i < length (videoCards g)" and "\<not> expanded (videoCards g ! i)"
  shows "expansion_inv (toggleVideoCard g i)"
proof -
  let ?cs = "videoCards g"
  let ?cs' = "(map (\<lambda>c. if expanded c then collapse_card c else c) ?cs)[i := expand_card (?cs ! i)]"
  have t: "videoCards (toggleVideoCard g i) = ?cs'"
    using assms(2,3) by (simp add: toggle_expand)
  have pm: "\<And>j. j < length ?cs \<Longrightarrow> player_matches (?cs ! j)"
    using assms(1) by (simp add: expansion_inv_def list_all_length)
  have "\<And>j. j < length ?cs' \<Longrightarrow> j \<noteq> i \<Longrightarrow> \<not> expanded (?cs' ! j)"
    by simp
  then have "{j. j < length ?cs' \<and> expanded (?cs' ! j)} \<subseteq> {i}"
    by blast
  then have "card {j. j < length ?cs' \<and> expanded (?cs' ! j)} \<le> card {i}"
    by (intro card_mono) auto
  then have c: "length (filter expanded ?cs') \<le> 1"
    by (simp add: expanded_count)
  have "\<And>j. j < length ?cs' \<Longrightarrow> player_matches (?cs' ! j)"
  proof -
    fix j assume j: "j < length ?cs'"
    show "player_matches (?cs' ! j)"
    proof (cases "j = i")
      case True
      with pm[of i] assms(2,3) show ?thesis
        by (simp add: player_matches_def)
    next
      case False
      with pm[of j] j show ?thesis
        by (auto simp: player_matches_def tl_single)
    qed
  qed
  with c show ?thesis unfolding expansion_inv_def t by (simp add: list_all_length)
qed

lemma inv_toggle:
  assumes "expansion_inv g" and "i < length (videoCards g)"
  shows "expansion_inv (toggleVideoCard g i)"
proof (cases "expanded (videoCards g ! i)")
  case True
  then have "list_all2 settles_to (videoCards g) (videoCards (toggleVideoCard g i))"
    by (simp add: toggle_collapse all_settle_update settles_to_collapse_card)
  with assms(1) show ?thesis by (rule inv_settles)
next
  case False
  with assms show ?thesis by (simp add: inv_expand)
qed

lemma all_settle_escape:
  "list_all2 settles_to (videoCards g) (videoCards (keydown_document key g))"
proof (cases "key = js ''Escape''")
  case True
  then show ?thesis
    by (simp add: escape_all list_all2_conv_all_nth settles_to_collapse)
next
  case False
  then show ?thesis by (simp add: keydown_document_def)
qed

lemma all_settle_callback:
  assumes "i < length (videoCards g)"
  shows "list_all2 settles_to (videoCards g)
           (videoCards (state_of (filterVideos_callback q sel i (g, n))))"
proof (cases "data_participants (videoCards g ! i)")
  case None
  then show ?thesis by (simp add: callback_None state_of_def)
next
  case (Some ps)
  then show ?thesis
    using callback_Some[OF assms, of q sel n]
    by (simp add: state_of_def all_settle_update settles_to_filter_card)
qed

lemma length_callback:
  "i < length (videoCards g) \<Longrightarrow>
   length (videoCards (state_of (filterVideos_callback q sel i (g, n)))) = length (videoCards g)"
  using all_settle_callback[of i g q sel n] by (simp add: list_all2_lengthD)

lemma all_settle_forEach:
  assumes "\<forall>i \<in> set is. i < length (videoCards g)"
  shows "list_all2 settles_to (videoCards g)
           (videoCards (state_of (filterVideos_forEach q sel is (g, n))))"
  using assms
proof (induction "is" arbitrary: g n)
  case Nil
  then show ?case by (simp add: state_of_def)
next
  case (Cons i rest)
  then have i: "i < length (videoCards g)" by simp
  show ?case
  proof (cases "filterVideos_callback q sel i (g, n)")
    case (Inl a)
    then show ?thesis
      using all_settle_callback[OF i, of q sel n] by (simp add: state_of_def)
  next
    case (Inr st)
    obtain g1 n1 where st: "st = (g1, n1)" by (cases st)
    have s1: "list_all2 settles_to (videoCards g) (videoCards g1)"
      using all_settle_callback[OF i, of q sel n] Inr st by (simp add: state_of_def)
    then have "length (videoCards g1) = length (videoCards g)" by (simp add: list_all2_lengthD)
    with Cons.prems have "\<forall>j \<in> set rest. j < length (videoCards g1)" by simp
    from Cons.IH[OF this, of n1]
    have "list_all2 settles_to (videoCards g1)
            (videoCards (state_of (filterVideos_forEach q sel rest (g1, n1))))" .
    with s1 show ?thesis using Inr st by (auto intro: all_settle_trans)
  qed
qed

lemma all_settle_filterVideos:
  "list_all2 settles_to (videoCards g) (videoCards (settle (filterVideos_with q g sel)))"
proof -
  have "videoCards (settle (filterVideos_with q g sel))
      = videoCards (state_of (filterVideos_forEach q sel [0..<length (videoCards g)] (g, 0)))"
    by (auto simp: filterVideos_with_def settle_def state_of_def split: sum.splits prod.splits)
  then show ?thesis using all_settle_forEach[of "[0..<length (videoCards g)]" g q sel 0] by simp
qed

lemma toggleChips_chips_only:
  "toggleChips c b = Inr c' \<Longrightarrow> \<exists>ch. c' = c\<lparr>chips := ch\<rparr>"
  by (auto simp: toggleChips_def Let_def split: option.splits if_splits)

lemma js_keys [simp]:
  "js ''Enter'' \<noteq> js ''Escape''" "js '' '' \<noteq> js ''Escape''"
  by (simp_all add: js_def)

lemma inv_handle:
  assumes "expansion_inv g" and "enabled ev g"
  shows "expansion_inv (handle ev g)"
proof (cases ev)
  case (Click_thumbnail i)
  with assms show ?thesis by (simp add: inv_toggle)
next
  case (Keydown_thumbnail i key)
  with assms have "expansion_inv (keydown_thumbnail i key g)"
    by (simp add: keydown_thumbnail_def inv_toggle)
  then show ?thesis
    unfolding Keydown_thumbnail handle.simps by (rule inv_settles) (rule all_settle_escape)
next
  case (Keydown_document key)
  show ?thesis
    unfolding Keydown_document handle.simps using assms(1) by (rule inv_settles) (rule all_settle_escape)
next
  case (Change_filter v)
  have "expansion_inv (g\<lparr>participantFilter_value := v\<rparr>)"
    using assms(1) by (simp add: expansion_inv_def)
  then show ?thesis
    unfolding Change_filter handle.simps filterVideos_def
    by (rule inv_settles) (rule all_settle_filterVideos)
next
  case Click_reset
  have "expansion_inv (g\<lparr>participantFilter_value := []\<rparr>)"
    using assms(1) by (simp add: expansion_inv_def)
  then show ?thesis
    unfolding Click_reset handle.simps resetFilter_def filterVideos_def
    by (rule inv_settles) (rule all_settle_filterVideos)
next
  case (Click_expand i b)
  show ?thesis
  proof (cases "toggleChips (videoCards g ! i) b")
    case (Inl e)
    with assms(1) show ?thesis by (simp add: Click_expand)
  next
    case (Inr c')
    then obtain ch where "c' = (videoCards g ! i)\<lparr>chips := ch\<rparr>"
      using toggleChips_chips_only by blast
    then have "settles_to (videoCards g ! i) c'" by (simp add: settles_to_def expanded_def)
    then have "list_all2 settles_to (videoCards g) (videoCards (handle ev g))"
      by (simp add: Click_expand Inr all_settle_update)
    with assms(1) show ?thesis by (rule inv_settles)
  qed
next
  case (Load_iframe i)
  have "list_all2 settles_to (videoCards g) (videoCards (handle ev g))"
    by (simp add: Load_iframe all_settle_update settles_to_def expanded_def)
  with assms(1) show ?thesis by (rule inv_settles)
next
  case Timeout_scroll
  with assms(1) show ?thesis by (simp add: expansion_inv_def)
qed

lemma inv_reachable:
  "reachable_from g0 g \<Longrightarrow> expansion_inv g0 \<Longrightarrow> expansion_inv g"
  by (induction rule: reachable_from.induct) (auto intro: inv_handle)

lemma generateChips_chips_only:
  "generateChips c = Inr c' \<Longrightarrow> \<exists>ch. c' = c\<lparr>chips := ch\<rparr>"
  by (auto simp: generateChips_def Let_def split: option.splits)

lemma all_settle_generate:
  "list_all2 settles_to cs (snd (generateChips_forEach cs))"
proof (induction cs)
  case Nil
  then show ?case by simp
next
  case (Cons c cs)
  show ?case
  proof (cases "generateChips c")
    case (Inl e)
    then show ?thesis by simp
  next
    case (Inr c')
    then obtain ch where "c' = c\<lparr>chips := ch\<rparr>" using generateChips_chips_only by blast
    then have "settles_to c c'" by (simp add: settles_to_def expanded_def)
    with Cons Inr show ?thesis by (auto split: prod.splits)
  qed
qed

lemma cards_page_load:
  "videoCards (page_load localeCompare m) = snd (generateChips_forEach (videoCards m))"
  by (auto simp: page_load_def settle_def init_def populateFilterDropdown_def
      split: prod.splits option.splits sum.splits)

lemma inv_page_load:
  assumes "pristine m"
  shows "expansion_inv (page_load localeCompare m)"
proof -
  from assms have n: "\<forall>c \<in> set (videoCards m). \<not> expanded c \<and> player_iframes c = []"
    by (simp add: pristine_def list_all_iff)
  then have "filter expanded (videoCards m) = []" by (simp add: filter_empty_conv)
  with n have "expansion_inv m"
    by (simp add: expansion_inv_def list_all_iff player_matches_def)
  then show ?thesis
    by (rule inv_settles) (simp add: cards_page_load all_settle_generate)
qed

lemma exclusive_nth:
  assumes "length (filter expanded cs) \<le> 1" and "a < length cs" and "b < length cs"
    and "expanded (cs ! a)" and "expanded (cs ! b)"
  shows "a = b"
proof (rule ccontr)
  assume "a \<noteq> b"
  then have "card {a, b} = 2" by simp
  moreover have "{a, b} \<subseteq> {i. i < length cs \<and> expanded (cs ! i)}" using assms by auto
  then have "card {a, b} \<le> card {i. i < length cs \<and> expanded (cs ! i)}"
    by (intro card_mono) auto
  ultimately show False using assms(1) by (simp add: expanded_count)
qed

text \<open>
  C2. On every page reachable from pristine markup at most one card is expanded, and every
  event keeps it so. Expanding card \<open>b\<close> while card \<open>a\<close> is expanded leaves \<open>a\<close> exactly as
  its explicit collapse does (aria-expanded \<open>false\<close>, embed hidden, no marker, no iframe)
  and \<open>b\<close> expanded with one iframe in its player.
\<close>

theorem expansion_exclusive:
  assumes "pristine m" and "reachable_from (page_load localeCompare m) g"
  shows "length (filter expanded (videoCards g)) \<le> 1 \<and>
         (\<forall>ev. enabled ev g \<longrightarrow> length (filter expanded (videoCards (handle ev g))) \<le> 1) \<and>
         (\<forall>a b. a < length (videoCards g) \<and> b < length (videoCards g) \<and> a \<noteq> b \<and>
                expanded (videoCards g ! a) \<longrightarrow>
            videoCards (toggleVideoCard g b) ! a = collapse_card (videoCards g ! a) \<and>
            videoCards (toggleVideoCard g a) ! a = collapse_card (videoCards g ! a) \<and>
            thumbnail_aria_expanded (videoCards (toggleVideoCard g b) ! a) = Some (js ''false'') \<and>
            embed_hidden (videoCards (toggleVideoCard g b) ! a) \<and>
            data_expanded (videoCards (toggleVideoCard g b) ! a) = None \<and>
            player_iframes (videoCards (toggleVideoCard g b) ! a) = [] \<and>
            expanded (videoCards (toggleVideoCard g b) ! b) \<and>
            length (player_iframes (videoCards (toggleVideoCard g b) ! b)) = 1)"
proof -
  have inv: "expansion_inv g"
    using assms(2) inv_page_load[OF assms(1)] by (rule inv_reachable)
  then have one: "length (filter expanded (videoCards g)) \<le> 1"
    by (simp add: expansion_inv_def)
  have ops: "\<forall>ev. enabled ev g \<longrightarrow> length (filter expanded (videoCards (handle ev g))) \<le> 1"
    using inv_handle[OF inv] by (simp add: expansion_inv_def)
  have tr: "\<And>a b. a < length (videoCards g) \<Longrightarrow> b < length (videoCards g) \<Longrightarrow> a \<noteq> b \<Longrightarrow>
                expanded (videoCards g ! a) \<Longrightarrow>
            videoCards (toggleVideoCard g b) ! a = collapse_card (videoCards g ! a) \<and>
            videoCards (toggleVideoCard g a) ! a = collapse_card (videoCards g ! a) \<and>
            thumbnail_aria_expanded (videoCards (toggleVideoCard g b) ! a) = Some (js ''false'') \<and>
            embed_hidden (videoCards (toggleVideoCard g b) ! a) \<and>
            data_expanded (videoCards (toggleVideoCard g b) ! a) = None \<and>
            player_iframes (videoCards (toggleVideoCard g b) ! a) = [] \<and>
            expanded (videoCards (toggleVideoCard g b) ! b) \<and>
            length (player_iframes (videoCards (toggleVideoCard g b) ! b)) = 1"
  proof -
    fix a b
    assume a: "a < length (videoCards g)" and b: "b < length (videoCards g)" and ab: "a \<noteq> b"
      and ea: "expanded (videoCards g ! a)"
    have nb: "\<not> expanded (videoCards g ! b)"
      using exclusive_nth[OF one a b ea] ab by blast
    have pa: "length (player_iframes (videoCards g ! a)) = 1"
      and pb: "player_iframes (videoCards g ! b) = []"
      using inv a b ea nb by (auto simp: expansion_inv_def list_all_length player_matches_def)
    have 1: "videoCards (toggleVideoCard g b) ! a = collapse_card (videoCards g ! a)"
      using a b ab ea by (simp add: toggle_expand[OF nb b])
    have 2: "videoCards (toggleVideoCard g a) ! a = collapse_card (videoCards g ! a)"
      using a by (simp add: toggle_collapse[OF ea])
    have 3: "videoCards (toggleVideoCard g b) ! b = expand_card (videoCards g ! b)"
      using b by (simp add: toggle_expand[OF nb b])
    show "videoCards (toggleVideoCard g b) ! a = collapse_card (videoCards g ! a) \<and>
            videoCards (toggleVideoCard g a) ! a = collapse_card (videoCards g ! a) \<and>
            thumbnail_aria_expanded (videoCards (toggleVideoCard g b) ! a) = Some (js ''false'') \<and>
            embed_hidden (videoCards (toggleVideoCard g b) ! a) \<and>
            data_expanded (videoCards (toggleVideoCard g b) ! a) = None \<and>
            player_iframes (videoCards (toggleVideoCard g b) ! a) = [] \<and>
            expanded (videoCards (toggleVideoCard g b) ! b) \<and>
            length (player_iframes (videoCards (toggleVideoCard g b) ! b)) = 1"
      unfolding 1 2 3 using pa pb by (simp add: tl_single)
  qed
  from one ops tr show ?thesis by blast
qed

lemma page_first_state:
  "length (videoCards page_first) = 2"
  "expanded (videoCards page_first ! 0)"
  by (simp_all add: page_first_def page_loaded_def page_ana_carla_def run_eval expanded_def
      expand_card_def loadYouTubeEmbed_def remove_iframe_def enumerate_eq_zip upt_rec)

theorem expansion_exclusive_witness:
  "pristine page_ana_carla \<and>
   reachable_from (page_load localeCompare_es_base page_ana_carla) page_first \<and>
   expanded (videoCards page_first ! 0) \<and>
   length (filter expanded (videoCards page_first)) \<le> 1 \<and>
   videoCards (toggleVideoCard page_first 1) ! 0 = collapse_card (videoCards page_first ! 0) \<and>
   videoCards (toggleVideoCard page_first 0) ! 0 = collapse_card (videoCards page_first ! 0) \<and>
   player_iframes (videoCards (toggleVideoCard page_first 1) ! 0) = [] \<and>
   expanded (videoCards (toggleVideoCard page_first 1) ! 1) \<and>
   length (player_iframes (videoCards (toggleVideoCard page_first 1) ! 1)) = 1"
proof -
  have p: "pristine page_ana_carla"
    by (simp add: pristine_def page_ana_carla_def markup_page_def markup_card_def expanded_def)
  have l: "page_load localeCompare_es_base page_ana_carla = page_loaded"
    by (simp add: page_load_def page_loaded_def)
  have "length (videoCards page_loaded) = 2"
    by (simp add: page_loaded_def page_ana_carla_def run_eval)
  then have "enabled (Click_thumbnail 0) page_loaded" by simp
  with reachable_from.start[of page_loaded]
  have "reachable_from page_loaded (handle (Click_thumbnail 0) page_loaded)"
    by (rule reachable_from.step)
  then have r: "reachable_from (page_load localeCompare_es_base page_ana_carla) page_first"
    by (simp add: l page_first_def)
  have h: "0 < length (videoCards page_first) \<and> 1 < length (videoCards page_first) \<and> (0::nat) \<noteq> 1 \<and>
     expanded (videoCards page_first ! 0)"
    by (simp add: page_first_state)
  from expansion_exclusive[OF p r] h p r show ?thesis by blast
qed

section \<open>The expand control of the chips\<close>

lemmas six_eval =
  card_six_less_def card_six_more_def card_six_generated_def card_six_def chips_of_def run_eval

lemma six_generated: "generateChips card_six = Inr card_six_generated"
  by (simp add: six_eval)

lemma six_generated_hidden:
  "map chip_hidden (chips card_six_generated) = [False, False, False, False, True, True, False]"
  by (simp add: six_eval)

lemma six_generated_tags:
  "map tagName (chips card_six_generated) = [Span, Span, Span, Span, Span, Span, Button]"
  by (simp add: six_eval)

lemma six_generated_label:
  "textContent (chips card_six_generated ! 6) = js ''+2 m'' @ [0xCE58] @ js ''s''"
  by (simp add: six_eval)

lemma six_more: "toggleChips card_six_generated 6 = Inr card_six_more"
  by (simp add: six_eval)

lemma six_more_hidden:
  "map chip_hidden (chips card_six_more) = [False, False, False, False, False, False, False]"
  by (simp add: six_eval)

lemma six_more_label: "textContent (chips card_six_more ! 6) = js ''Ver menos''"
  by (simp add: six_eval)

lemma six_less: "toggleChips card_six_more 6 = Inr card_six_less"
  by (simp add: six_eval)

lemma six_less_generated: "card_six_less = card_six_generated"
  by (simp add: six_eval)

lemma five_label:
  "textContent (chips_of (toggleChips
      (card_six_more\<lparr>data_participants := Some (js ''Ana, Beto, Carla, Dora, Eva'')\<rparr>) 6) ! 6)
     = js ''+1 m'' @ [0xCE58] @ js ''s''"
  by (simp add: six_eval)

text \<open>
  C5, on the card with six participants. generateChips renders six chips, the last two
  hidden, and the expand control; the control's label is \<open>+2 m\<close>, the code unit U+CE58,
  \<open>s\<close>, which is not the Spanish label of the specification (a-acute, U+00E1, in that
  place). Activating the
  control shows all six chips under the label \<open>Ver menos\<close>; activating it again gives back
  the card as generated. The count in the label is taken from the participant list the
  card has at that moment: with five names it reads \<open>+1\<close>.
\<close>

theorem expand_control_six:
  "generateChips card_six = Inr card_six_generated \<and>
   map tagName (chips card_six_generated) = [Span, Span, Span, Span, Span, Span, Button] \<and>
   map chip_hidden (chips card_six_generated) = [False, False, False, False, True, True, False] \<and>
   textContent (chips card_six_generated ! 6) = js ''+2 m'' @ [0xCE58] @ js ''s'' \<and>
   textContent (chips card_six_generated ! 6) \<noteq> js ''+2 m'' @ [0xE1] @ js ''s'' \<and>
   toggleChips card_six_generated 6 = Inr card_six_more \<and>
   map chip_hidden (chips card_six_more) = [False, False, False, False, False, False, False] \<and>
   textContent (chips card_six_more ! 6) = js ''Ver menos'' \<and>
   toggleChips card_six_more 6 = Inr card_six_less \<and>
   card_six_less = card_six_generated \<and>
   textContent (chips_of (toggleChips
      (card_six_more\<lparr>data_participants := Some (js ''Ana, Beto, Carla, Dora, Eva'')\<rparr>) 6) ! 6)
     = js ''+1 m'' @ [0xCE58] @ js ''s''"
proof -
  have "js ''+2 m'' @ [0xCE58] @ js ''s'' \<noteq> js ''+2 m'' @ [0xE1] @ js ''s''"
    by (simp add: js_def)
  then show ?thesis
    using six_generated six_generated_tags six_generated_hidden six_generated_label six_more
      six_more_hidden six_more_label six_less six_less_generated five_label
    by simp
qed

section \<open>Chip highlights on reachable pages\<close>

lemma class_names [simp]:
  "js ''chip--highlighted'' \<noteq> js ''chip''" "js ''chip--highlighted'' \<noteq> js ''chip--expand''"
  "js ''chip'' \<noteq> js ''chip--highlighted''" "js ''chip--expand'' \<noteq> js ''chip--highlighted''"
  "js ''chip--hidden'' \<noteq> js ''chip''" "js ''chip--hidden'' \<noteq> js ''chip--expand''"
  "js ''chip--hidden'' \<noteq> js ''chip--highlighted''" "js ''chip--highlighted'' \<noteq> js ''chip--hidden''"
  "js ''chip--visible'' \<noteq> js ''chip''" "js ''chip--visible'' \<noteq> js ''chip--expand''"
  "js ''chip--visible'' \<noteq> js ''chip--highlighted''" "js ''chip--highlighted'' \<noteq> js ''chip--visible''"
  "js ''chip'' \<noteq> js ''chip--hidden''" "js ''chip'' \<noteq> js ''chip--visible''"
  "js ''chip'' \<noteq> js ''chip--expand''" "js ''chip--expand'' \<noteq> js ''chip''"
  "js ''chip--expand'' \<noteq> js ''chip--hidden''" "js ''chip--expand'' \<noteq> js ''chip--visible''"
  by (simp_all add: js_def)

lemma set_classList_add [simp]: "set (classList_add t cl) = insert t (set cl)"
  by (auto simp: classList_add_def)

lemma set_classList_remove [simp]: "set (classList_remove t cl) = set cl - {t}"
  by (auto simp: classList_remove_def)

lemma trim_idem: "trim (trim s) = trim s"
proof -
  let ?u = "dropWhile isWhiteSpace s"
  let ?t = "rev (dropWhile isWhiteSpace (rev ?u))"
  have u: "?u = ?t @ rev (takeWhile isWhiteSpace (rev ?u))"
  proof -
    have "rev (takeWhile isWhiteSpace (rev ?u) @ dropWhile isWhiteSpace (rev ?u)) = rev (rev ?u)"
      by (simp only: takeWhile_dropWhile_id)
    then have "?t @ rev (takeWhile isWhiteSpace (rev ?u)) = ?u"
      by (simp only: rev_append rev_rev_ident)
    then show ?thesis by (rule sym)
  qed
  have a: "dropWhile isWhiteSpace ?t = ?t"
  proof (cases "?t = []")
    case True
    show ?thesis by (simp only: True dropWhile.simps)
  next
    case False
    then have "hd ?u = hd ?t" using u by (metis hd_append2)
    moreover have "?u \<noteq> []"
    proof
      assume e: "?u = []"
      have "?t = []" by (simp only: e rev.simps dropWhile.simps)
      with False show False by (rule notE)
    qed
    then have "\<not> isWhiteSpace (hd ?u)" by (rule hd_dropWhile)
    ultimately show ?thesis using False by (simp add: dropWhile_eq_self_iff)
  qed
  have b: "dropWhile isWhiteSpace (rev ?t) = rev ?t" by simp
  have "trim (trim s) = rev (dropWhile isWhiteSpace (rev (dropWhile isWhiteSpace ?t)))"
    by (simp add: trim_def)
  also have "\<dots> = rev (dropWhile isWhiteSpace (rev ?t))" by (simp only: a)
  also have "\<dots> = ?t" by simp
  finally show ?thesis by (simp add: trim_def)
qed

lemma highlight_chip_fields [simp]:
  "textContent (highlight_chip q v e) = textContent e"
  "onclick_toggleChips (highlight_chip q v e) = onclick_toggleChips e"
  "chip_not_expand (highlight_chip q v e) = chip_not_expand e"
  by (simp_all add: highlight_chip_def chip_not_expand_def)

lemma highlighted_highlight_chip:
  "chip_not_expand e \<Longrightarrow>
   highlighted (highlight_chip chip_not_expand v e) \<longleftrightarrow> v \<noteq> [] \<and> trim (textContent e) = v"
  by (simp add: highlight_chip_def highlighted_def)

lemma chip_ok_highlight:
  "chip_ok sel s e \<Longrightarrow> chip_ok v s' (highlight_chip chip_not_expand v e)"
  by (auto simp: chip_ok_def highlighted_highlight_chip)

lemma chip_ok_hidden: "chip_ok sel s e \<Longrightarrow> chip_ok v False e"
  by (simp add: chip_ok_def)

lemma card_chips_inv_filter_card:
  assumes "card_chips_inv sel c"
  shows "card_chips_inv v (filter_card chip_not_expand v c)"
proof -
  from assms have p: "data_participants c \<noteq> None"
    and ok: "\<And>e. e \<in> set (chips c) \<Longrightarrow> chip_ok sel (\<not> hidden c) e"
    by (auto simp: card_chips_inv_def list_all_iff)
  show ?thesis
  proof (cases "selected v c")
    case True
    then show ?thesis
      using p ok by (auto simp: card_chips_inv_def filter_card_def list_all_iff intro: chip_ok_highlight)
  next
    case False
    then show ?thesis
      using p ok by (auto simp: card_chips_inv_def filter_card_def list_all_iff intro: chip_ok_hidden)
  qed
qed

lemma chips_inv_participants:
  "chips_inv g \<Longrightarrow> \<forall>c \<in> set (videoCards g). data_participants c \<noteq> None"
  by (simp add: chips_inv_def list_all_iff card_chips_inv_def)

lemma chips_inv_filter:
  assumes "chips_inv g"
  shows "chips_inv (settle (filterVideos (g\<lparr>participantFilter_value := v\<rparr>) v))"
proof -
  let ?g = "g\<lparr>participantFilter_value := v\<rparr>"
  have "\<forall>c \<in> set (videoCards ?g). data_participants c \<noteq> None"
    using chips_inv_participants[OF assms] by simp
  from filterVideos_with_ok[OF this, of chip_not_expand v]
  show ?thesis using assms
    by (auto simp: filterVideos_def settle_def chips_inv_def list_all_iff
        intro: card_chips_inv_filter_card)
qed

lemma same_view_inv: "card_chips_inv sel c \<Longrightarrow> same_view c c' \<Longrightarrow> card_chips_inv sel c'"
  by (simp add: card_chips_inv_def same_view_def)

lemma chips_inv_same_view:
  assumes "chips_inv g" and "list_all2 same_view (videoCards g) (videoCards g')"
    and "participantFilter_value g' = participantFilter_value g"
  shows "chips_inv g'"
  using assms same_view_inv
  by (fastforce simp: chips_inv_def list_all_length list_all2_conv_all_nth)

lemma same_view_simps [simp]:
  "same_view c c" "same_view c (collapse_card c)" "same_view c (expand_card c)"
  by (simp_all add: same_view_def)

lemma same_view_update:
  "same_view (cs ! i) c' \<Longrightarrow> list_all2 same_view cs (cs[i := c'])"
  by (cases "i < length cs") (auto simp: list_all2_conv_all_nth nth_list_update)

lemma same_view_toggle:
  assumes "i < length (videoCards g)"
  shows "list_all2 same_view (videoCards g) (videoCards (toggleVideoCard g i))"
proof (cases "expanded (videoCards g ! i)")
  case True
  then show ?thesis by (simp add: toggle_collapse same_view_update)
next
  case False
  then show ?thesis using assms
    by (auto simp: toggle_expand list_all2_conv_all_nth nth_list_update)
qed

lemma value_toggle [simp]:
  "participantFilter_value (toggleVideoCard g i) = participantFilter_value g"
  by (simp add: toggleVideoCard_def Let_def)

lemma chips_inv_toggle:
  "chips_inv g \<Longrightarrow> i < length (videoCards g) \<Longrightarrow> chips_inv (toggleVideoCard g i)"
  by (rule chips_inv_same_view) (simp_all add: same_view_toggle)

lemma chips_inv_escape: "chips_inv g \<Longrightarrow> chips_inv (keydown_document key g)"
proof (cases "key = js ''Escape''")
  case True
  assume "chips_inv g"
  then show ?thesis
    by (rule chips_inv_same_view) (simp_all add: True escape_all list_all2_conv_all_nth)
next
  case False
  assume "chips_inv g"
  with False show ?thesis by (simp add: keydown_document_def)
qed

lemma chip_rel_refl [simp]: "chip_rel e e"
  by (simp add: chip_rel_def)

lemma chip_rel_trans: "chip_rel a b \<Longrightarrow> chip_rel b c \<Longrightarrow> chip_rel a c"
  by (auto simp: chip_rel_def)

lemma chip_rel_update:
  "chip_rel (es ! k) e' \<Longrightarrow> list_all2 chip_rel es (es[k := e'])"
  by (cases "k < length es") (auto simp: list_all2_conv_all_nth nth_list_update)

lemma all_chip_rel_trans:
  "list_all2 chip_rel as bs \<Longrightarrow> list_all2 chip_rel bs cs \<Longrightarrow> list_all2 chip_rel as cs"
  using chip_rel_trans by (rule list_all2_trans)

lemma chip_rel_fold:
  assumes "\<And>e. chip_rel e (f e)"
  shows "list_all2 chip_rel es (fold (\<lambda>k els. els[k := f (els ! k)]) ks es)"
proof (induction ks arbitrary: es)
  case Nil
  then show ?case by (simp add: list_all2_conv_all_nth)
next
  case (Cons k ks)
  have "list_all2 chip_rel es (es[k := f (es ! k)])" by (simp add: chip_rel_update assms)
  moreover have "list_all2 chip_rel (es[k := f (es ! k)])
      (fold (\<lambda>k els. els[k := f (els ! k)]) ks (es[k := f (es ! k)]))"
    by (rule Cons.IH)
  ultimately show ?case by (auto intro: all_chip_rel_trans)
qed

lemma chip_rel_toggleChips:
  assumes "toggleChips c b = Inr c'" and "\<not> chip_not_expand (chips c ! b)"
  shows "list_all2 chip_rel (chips c) (chips c') \<and>
         data_participants c' = data_participants c \<and> hidden c' = hidden c"
proof -
  let ?hide = "\<lambda>e. e\<lparr>classList := classList_add (js ''chip--hidden'')
                 (classList_remove (js ''chip--visible'') (classList e))\<rparr>"
  let ?show = "\<lambda>e. e\<lparr>classList := classList_add (js ''chip--visible'')
                 (classList_remove (js ''chip--hidden'') (classList e))\<rparr>"
  let ?ks = "drop MAX_VISIBLE_CHIPS (querySelectorAll chip_not_expand (chips c))"
  have sw1: "\<And>e. chip_rel e (?hide e)"
    by (auto simp: chip_rel_def chip_not_expand_def highlighted_def)
  have sw2: "\<And>e. chip_rel e (?show e)"
    by (auto simp: chip_rel_def chip_not_expand_def highlighted_def)
  have btn: "\<And>a t ti. list_all2 chip_rel (chips c)
       ((chips c)[b := (chips c ! b)\<lparr>aria_expanded := a, textContent := t, el_title := ti\<rparr>])"
    using assms(2)
    by (intro chip_rel_update) (auto simp: chip_rel_def chip_not_expand_def highlighted_def)
  from assms(1) obtain ps where ps: "data_participants c = Some ps"
    by (auto simp: toggleChips_def Let_def split: option.splits)
  show ?thesis
  proof (cases "aria_expanded (chips c ! b) = Some (js ''true'')")
    case True
    with assms(1) ps obtain t ti where
      "c' = c\<lparr>chips := fold (\<lambda>k els. els[k := ?hide (els ! k)]) ?ks
              ((chips c)[b := (chips c ! b)\<lparr>aria_expanded := Some (js ''false''),
                                           textContent := t, el_title := ti\<rparr>])\<rparr>"
      by (auto simp: toggleChips_def Let_def)
    then show ?thesis
      using all_chip_rel_trans[OF btn chip_rel_fold[of ?hide, OF sw1]] by simp
  next
    case False
    with assms(1) ps obtain t ti where
      "c' = c\<lparr>chips := fold (\<lambda>k els. els[k := ?show (els ! k)]) ?ks
              ((chips c)[b := (chips c ! b)\<lparr>aria_expanded := Some (js ''true''),
                                           textContent := t, el_title := ti\<rparr>])\<rparr>"
      by (auto simp: toggleChips_def Let_def)
    then show ?thesis
      using all_chip_rel_trans[OF btn chip_rel_fold[of ?show, OF sw2]] by simp
  qed
qed

lemma chip_ok_rel: "chip_ok sel s e \<Longrightarrow> chip_rel e e' \<Longrightarrow> chip_ok sel s e'"
  by (auto simp: chip_ok_def chip_rel_def)

lemma card_chips_inv_toggleChips:
  assumes "card_chips_inv sel c" and "b < length (chips c)"
    and "onclick_toggleChips (chips c ! b)" and "toggleChips c b = Inr c'"
  shows "card_chips_inv sel c'"
proof -
  from assms(1,2) have okb: "chip_ok sel (\<not> hidden c) (chips c ! b)"
    by (simp add: card_chips_inv_def list_all_length)
  with assms(3) have "\<not> chip_not_expand (chips c ! b)" by (simp add: chip_ok_def)
  from chip_rel_toggleChips[OF assms(4) this]
  have rel: "list_all2 chip_rel (chips c) (chips c')"
    and sv: "data_participants c' = data_participants c" "hidden c' = hidden c"
    by simp_all
  have "list_all (chip_ok sel (\<not> hidden c)) (chips c')"
    using assms(1) rel chip_ok_rel
    by (fastforce simp: card_chips_inv_def list_all_length list_all2_conv_all_nth)
  with assms(1) sv show ?thesis by (simp add: card_chips_inv_def)
qed

lemma list_all_update: "list_all P xs \<Longrightarrow> P y \<Longrightarrow> list_all P (xs[i := y])"
  by (cases "i < length xs") (auto simp: list_all_length nth_list_update)

lemma chips_inv_handle:
  assumes "chips_inv g" and "enabled ev g"
  shows "chips_inv (handle ev g)"
proof (cases ev)
  case (Click_thumbnail i)
  with assms show ?thesis by (simp add: chips_inv_toggle)
next
  case (Keydown_thumbnail i key)
  with assms have "chips_inv (keydown_thumbnail i key g)"
    by (simp add: keydown_thumbnail_def chips_inv_toggle)
  then show ?thesis unfolding Keydown_thumbnail handle.simps by (rule chips_inv_escape)
next
  case (Keydown_document key)
  with assms(1) show ?thesis by (simp add: chips_inv_escape)
next
  case (Change_filter v)
  with assms(1) show ?thesis by (simp add: chips_inv_filter)
next
  case Click_reset
  with assms(1) show ?thesis by (simp add: resetFilter_def chips_inv_filter)
next
  case (Click_expand i b)
  with assms(2) have i: "i < length (videoCards g)" and b: "b < length (chips (videoCards g ! i))"
    and oc: "onclick_toggleChips (chips (videoCards g ! i) ! b)" by simp_all
  from assms(1) i have ci: "card_chips_inv (participantFilter_value g) (videoCards g ! i)"
    by (simp add: chips_inv_def list_all_length)
  show ?thesis
  proof (cases "toggleChips (videoCards g ! i) b")
    case (Inl e)
    with assms(1) show ?thesis by (simp add: Click_expand)
  next
    case (Inr c')
    from card_chips_inv_toggleChips[OF ci b oc Inr]
    show ?thesis using assms(1)
      by (simp add: Click_expand Inr chips_inv_def list_all_update)
  qed
next
  case (Load_iframe i)
  show ?thesis using assms(1) unfolding Load_iframe handle.simps
    by (rule chips_inv_same_view) (simp_all add: same_view_update same_view_def)
next
  case Timeout_scroll
  with assms(1) show ?thesis by (simp add: chips_inv_def)
qed

lemma chips_inv_reachable: "reachable_from g0 g \<Longrightarrow> chips_inv g0 \<Longrightarrow> chips_inv g"
  by (induction rule: reachable_from.induct) (auto intro: chips_inv_handle)

lemma chip_ok_new_chip: "chip_ok [] s (new_chip k (trim p))"
  by (simp add: chip_ok_def new_chip_def Let_def chip_not_expand_def highlighted_def trim_idem)

lemma chip_ok_new_expandBtn: "chip_ok [] s (new_expandBtn n)"
  by (simp add: chip_ok_def new_expandBtn_def chip_not_expand_def)

lemma created_chips_ok:
  "list_all (chip_ok [] s) (map (\<lambda>(index, participant). new_chip index participant)
      (enumerate n (map trim ps)))"
  by (induction ps arbitrary: n) (simp_all add: chip_ok_new_chip)

lemma card_chips_inv_generateChips:
  assumes "generateChips c = Inr c'"
  shows "card_chips_inv [] c'"
proof -
  from assms obtain ps where ps: "data_participants c = Some ps"
    by (auto simp: generateChips_def split: option.splits)
  with assms show ?thesis
    by (auto simp: generateChips_def Let_def card_chips_inv_def split_comma_def
        created_chips_ok chip_ok_new_expandBtn)
qed

lemma generateChips_forEach_inv:
  "generateChips_forEach cs = (None, cs') \<Longrightarrow> list_all (card_chips_inv []) cs'"
proof (induction cs arbitrary: cs')
  case Nil
  then show ?case by simp
next
  case (Cons c cs)
  show ?case
  proof (cases "generateChips c")
    case (Inl e)
    with Cons.prems show ?thesis by simp
  next
    case (Inr c1)
    obtain r rest where rr: "generateChips_forEach cs = (r, rest)" by (cases "generateChips_forEach cs")
    with Cons.prems Inr have "r = None" and cs': "cs' = c1 # rest" by simp_all
    with rr Cons.IH have "list_all (card_chips_inv []) rest" by simp
    with cs' card_chips_inv_generateChips[OF Inr] show ?thesis by simp
  qed
qed

lemma chips_inv_init:
  assumes "init localeCompare m = Inr g0" and "participantFilter_value m = []"
  shows "chips_inv g0"
proof -
  obtain r cs where gc: "generateChips_forEach (videoCards m) = (r, cs)"
    by (cases "generateChips_forEach (videoCards m)")
  with assms(1) have r: "r = None"
    by (cases r) (simp_all add: init_def)
  with assms(1) gc have "videoCards g0 = cs" "participantFilter_value g0 = participantFilter_value m"
    by (auto simp: init_def populateFilterDropdown_def split: sum.splits)
  with generateChips_forEach_inv[of "videoCards m" cs] gc r assms(2)
  show ?thesis by (simp add: chips_inv_def)
qed

lemma map_highlighted_update:
  "highlighted y = highlighted (xs ! k) \<Longrightarrow> map highlighted (xs[k := y]) = map highlighted xs"
  by (cases "k < length xs") (auto intro!: nth_equalityI simp: nth_list_update split: if_splits)

lemma map_highlighted_fold:
  assumes "\<And>e. highlighted (f e) = highlighted e"
  shows "map highlighted (fold (\<lambda>k els. els[k := f (els ! k)]) ks es) = map highlighted es"
proof (induction ks arbitrary: es)
  case Nil
  then show ?case by simp
next
  case (Cons k ks)
  have "map highlighted (fold (\<lambda>k els. els[k := f (els ! k)]) ks (es[k := f (es ! k)]))
      = map highlighted (es[k := f (es ! k)])"
    by (rule Cons.IH)
  also have "\<dots> = map highlighted es"
    by (rule map_highlighted_update) (rule assms)
  finally show ?case by simp
qed

lemma highlighted_toggleChips:
  assumes "toggleChips c b = Inr c'"
  shows "map highlighted (chips c') = map highlighted (chips c)"
proof -
  let ?hide = "\<lambda>e. e\<lparr>classList := classList_add (js ''chip--hidden'')
                 (classList_remove (js ''chip--visible'') (classList e))\<rparr>"
  let ?show = "\<lambda>e. e\<lparr>classList := classList_add (js ''chip--visible'')
                 (classList_remove (js ''chip--hidden'') (classList e))\<rparr>"
  let ?ks = "drop MAX_VISIBLE_CHIPS (querySelectorAll chip_not_expand (chips c))"
  have h1: "\<And>e. highlighted (?hide e) = highlighted e" by (auto simp: highlighted_def)
  have h2: "\<And>e. highlighted (?show e) = highlighted e" by (auto simp: highlighted_def)
  have btn: "\<And>a t ti. map highlighted
       ((chips c)[b := (chips c ! b)\<lparr>aria_expanded := a, textContent := t, el_title := ti\<rparr>])
       = map highlighted (chips c)"
    by (rule map_highlighted_update) (simp add: highlighted_def)
  from assms obtain ps where ps: "data_participants c = Some ps"
    by (auto simp: toggleChips_def Let_def split: option.splits)
  show ?thesis
  proof (cases "aria_expanded (chips c ! b) = Some (js ''true'')")
    case True
    with assms ps obtain t ti where
      "c' = c\<lparr>chips := fold (\<lambda>k els. els[k := ?hide (els ! k)]) ?ks
              ((chips c)[b := (chips c ! b)\<lparr>aria_expanded := Some (js ''false''),
                                           textContent := t, el_title := ti\<rparr>])\<rparr>"
      by (auto simp: toggleChips_def Let_def)
    then show ?thesis
      using map_highlighted_fold[of ?hide, OF h1] btn by simp
  next
    case False
    with assms ps obtain t ti where
      "c' = c\<lparr>chips := fold (\<lambda>k els. els[k := ?show (els ! k)]) ?ks
              ((chips c)[b := (chips c ! b)\<lparr>aria_expanded := Some (js ''true''),
                                           textContent := t, el_title := ti\<rparr>])\<rparr>"
      by (auto simp: toggleChips_def Let_def)
    then show ?thesis
      using map_highlighted_fold[of ?show, OF h2] btn by simp
  qed
qed

lemma same_view_chips:
  "list_all2 same_view cs cs' \<Longrightarrow> i < length cs \<Longrightarrow> chips (cs' ! i) = chips (cs ! i)"
  by (simp add: list_all2_conv_all_nth same_view_def)

lemma all_same_view_trans:
  "list_all2 same_view as bs \<Longrightarrow> list_all2 same_view bs cs \<Longrightarrow> list_all2 same_view as cs"
proof -
  have "\<And>a b c. same_view a b \<Longrightarrow> same_view b c \<Longrightarrow> same_view a c"
    by (simp add: same_view_def)
  then show "list_all2 same_view as bs \<Longrightarrow> list_all2 same_view bs cs \<Longrightarrow> list_all2 same_view as cs"
    by (rule list_all2_trans)
qed

lemma same_view_escape:
  "list_all2 same_view (videoCards g) (videoCards (keydown_document key g))"
proof (cases "key = js ''Escape''")
  case True
  then show ?thesis by (simp add: escape_all list_all2_conv_all_nth)
next
  case False
  then show ?thesis by (simp add: keydown_document_def list_all2_conv_all_nth)
qed

lemma same_view_keydown_thumbnail:
  "j < length (videoCards g) \<Longrightarrow>
   list_all2 same_view (videoCards g) (videoCards (keydown_thumbnail j key g))"
proof (cases "key = js ''Enter'' \<or> key = js '' ''")
  case True
  assume "j < length (videoCards g)"
  with True show ?thesis by (simp add: keydown_thumbnail_def same_view_toggle)
next
  case False
  then show ?thesis by (simp add: keydown_thumbnail_def list_all2_conv_all_nth)
qed

lemma chips_filter_card_hidden:
  "hidden (filter_card q v c) \<Longrightarrow> chips (filter_card q v c) = chips c"
  by (simp add: filter_card_def split: if_splits)

lemma chips_inv_filter_cards:
  assumes "chips_inv g"
  shows "videoCards (settle (filterVideos (g\<lparr>participantFilter_value := v\<rparr>) v))
           = map (filter_card chip_not_expand v) (videoCards g)"
proof -
  let ?g = "g\<lparr>participantFilter_value := v\<rparr>"
  have "\<forall>c \<in> set (videoCards ?g). data_participants c \<noteq> None"
    using chips_inv_participants[OF assms] by simp
  from filterVideos_with_ok[OF this, of chip_not_expand v]
  show ?thesis by (simp add: filterVideos_def settle_def)
qed

lemma highlights_kept_handle:
  assumes "chips_inv g" and "enabled ev g" and "i < length (videoCards g)"
    and "hidden (videoCards (handle ev g) ! i)"
  shows "map highlighted (chips (videoCards (handle ev g) ! i))
           = map highlighted (chips (videoCards g ! i))"
proof (cases ev)
  case (Click_thumbnail j)
  with assms(2) have "list_all2 same_view (videoCards g) (videoCards (handle ev g))"
    by (simp add: same_view_toggle)
  with assms(3) show ?thesis by (simp add: same_view_chips)
next
  case (Keydown_thumbnail j key)
  with assms(2) have j: "j < length (videoCards g)" by simp
  have "list_all2 same_view (videoCards g) (videoCards (handle ev g))"
    unfolding Keydown_thumbnail handle.simps
    by (rule all_same_view_trans[OF same_view_keydown_thumbnail[OF j] same_view_escape])
  with assms(3) show ?thesis by (simp add: same_view_chips)
next
  case (Keydown_document key)
  have "list_all2 same_view (videoCards g) (videoCards (handle ev g))"
    unfolding Keydown_document handle.simps by (rule same_view_escape)
  with assms(3) show ?thesis by (simp add: same_view_chips)
next
  case (Change_filter v)
  have c: "videoCards (handle ev g) = map (filter_card chip_not_expand v) (videoCards g)"
    by (simp add: Change_filter chips_inv_filter_cards[OF assms(1)])
  with assms(3,4) show ?thesis by (simp add: chips_filter_card_hidden)
next
  case Click_reset
  have c: "videoCards (handle ev g) = map (filter_card chip_not_expand []) (videoCards g)"
    by (simp add: Click_reset resetFilter_def chips_inv_filter_cards[OF assms(1)])
  with assms(3,4) show ?thesis by (simp add: chips_filter_card_hidden)
next
  case (Click_expand j b)
  show ?thesis
  proof (cases "toggleChips (videoCards g ! j) b")
    case (Inl e)
    then show ?thesis by (simp add: Click_expand)
  next
    case (Inr c')
    show ?thesis
    proof (cases "j = i")
      case True
      with Inr assms(3) highlighted_toggleChips[OF Inr] show ?thesis
        by (simp add: Click_expand)
    next
      case False
      with Inr show ?thesis by (simp add: Click_expand)
    qed
  qed
next
  case (Load_iframe j)
  show ?thesis
  proof (cases "j = i")
    case True
    with assms(3) show ?thesis by (simp add: Load_iframe)
  next
    case False
    then show ?thesis by (simp add: Load_iframe)
  qed
next
  case Timeout_scroll
  then show ?thesis by simp
qed

lemma length_handle:
  assumes "chips_inv g" and "enabled ev g"
  shows "length (videoCards (handle ev g)) = length (videoCards g)"
proof (cases ev)
  case (Click_thumbnail j)
  then show ?thesis by simp
next
  case (Keydown_thumbnail j key)
  with assms(2) have j: "j < length (videoCards g)" by simp
  have "list_all2 same_view (videoCards g) (videoCards (handle ev g))"
    unfolding Keydown_thumbnail handle.simps
    by (rule all_same_view_trans[OF same_view_keydown_thumbnail[OF j] same_view_escape])
  then show ?thesis by (simp add: list_all2_lengthD)
next
  case (Keydown_document key)
  have "list_all2 same_view (videoCards g) (videoCards (handle ev g))"
    unfolding Keydown_document handle.simps by (rule same_view_escape)
  then show ?thesis by (simp add: list_all2_lengthD)
next
  case (Change_filter v)
  then show ?thesis by (simp add: chips_inv_filter_cards[OF assms(1)])
next
  case Click_reset
  then show ?thesis by (simp add: resetFilter_def chips_inv_filter_cards[OF assms(1)])
next
  case (Click_expand j b)
  then show ?thesis by (simp split: sum.splits)
next
  case (Load_iframe j)
  then show ?thesis by simp
next
  case Timeout_scroll
  then show ?thesis by simp
qed

text \<open>
  C4 (as the code has it). Start from markup whose filter control is empty and on which
  init returns. On every page reachable by the script's events, each participant chip of
  each shown card is highlighted exactly when the filter selection is non-empty and equals
  the chip's text; and no event changes the highlight of any chip of a card that is hidden
  once the event is handled, so the chips of a hidden card keep the highlight they had.
\<close>

theorem highlight_tracks_filter:
  assumes "init localeCompare m = Inr g0" and "participantFilter_value m = []"
    and "reachable_from g0 g"
  shows "(\<forall>c \<in> set (videoCards g). \<not> hidden c \<longrightarrow>
           (\<forall>e \<in> set (chips c). chip_not_expand e \<longrightarrow>
              (highlighted e \<longleftrightarrow>
                 participantFilter_value g \<noteq> [] \<and> textContent e = participantFilter_value g))) \<and>
         (\<forall>ev. enabled ev g \<longrightarrow>
            length (videoCards (handle ev g)) = length (videoCards g) \<and>
            (\<forall>i < length (videoCards g). hidden (videoCards (handle ev g) ! i) \<longrightarrow>
               map highlighted (chips (videoCards (handle ev g) ! i))
                 = map highlighted (chips (videoCards g ! i))))"
proof -
  have inv: "chips_inv g"
    using assms(3) chips_inv_init[OF assms(1,2)] by (rule chips_inv_reachable)
  then have 1: "\<forall>c \<in> set (videoCards g). \<not> hidden c \<longrightarrow>
           (\<forall>e \<in> set (chips c). chip_not_expand e \<longrightarrow>
              (highlighted e \<longleftrightarrow>
                 participantFilter_value g \<noteq> [] \<and> textContent e = participantFilter_value g))"
    by (auto simp: chips_inv_def card_chips_inv_def chip_ok_def list_all_iff)
  have 2: "\<forall>ev. enabled ev g \<longrightarrow>
            length (videoCards (handle ev g)) = length (videoCards g) \<and>
            (\<forall>i < length (videoCards g). hidden (videoCards (handle ev g) ! i) \<longrightarrow>
               map highlighted (chips (videoCards (handle ev g) ! i))
                 = map highlighted (chips (videoCards g ! i)))"
    using length_handle[OF inv] highlights_kept_handle[OF inv] by blast
  from 1 2 show ?thesis by (rule conjI)
qed

lemma page_loaded_init: "init localeCompare_es_base page_ana_carla = Inr page_loaded"
  by (simp add: page_loaded_def page_ana_carla_def run_eval)

lemma page_ana_reachable: "reachable_from page_loaded page_ana"
proof -
  have "reachable_from page_loaded page_carla"
    unfolding page_carla_def by (rule reachable_from.step[OF reachable_from.start]) simp
  then show ?thesis
    unfolding page_ana_def by (rule reachable_from.step) simp
qed

lemma page_ana_value: "participantFilter_value page_ana = js ''Ana''"
  by (simp add: page_ana_eval)

lemma page_ana_chips:
  "map (map textContent \<circ> chips) (videoCards page_ana)
     = [[js ''Ana'', js ''Beto''], [js ''Carla'']]"
  "map (map highlighted \<circ> chips) (videoCards page_ana) = [[True, False], [True]]"
  "map (map chip_not_expand \<circ> chips) (videoCards page_ana) = [[True, True], [True]]"
  by (simp_all add: page_ana_eval)


lemma map_eq_nth: "map f xs = ys \<Longrightarrow> i < length ys \<Longrightarrow> i < length xs \<and> f (xs ! i) = ys ! i"
  by auto

lemma page_ana_second:
  "hidden (videoCards page_ana ! 1)"
  "chips (videoCards page_ana ! 1) \<noteq> []"
  "textContent (chips (videoCards page_ana ! 1) ! 0) = js ''Carla''"
  "highlighted (chips (videoCards page_ana ! 1) ! 0)"
proof -
  from map_eq_nth[OF page_ana_state, of 1] show "hidden (videoCards page_ana ! 1)" by simp
  from map_eq_nth[OF page_ana_chips(1), of 1]
  have t: "map textContent (chips (videoCards page_ana ! 1)) = [js ''Carla'']" by simp
  then show "chips (videoCards page_ana ! 1) \<noteq> []" by auto
  from map_eq_nth[OF t, of 0] show "textContent (chips (videoCards page_ana ! 1) ! 0) = js ''Carla''"
    by simp
  from map_eq_nth[OF page_ana_chips(2), of 1]
  have "map highlighted (chips (videoCards page_ana ! 1)) = [True]" by simp
  from map_eq_nth[OF this, of 0] show "highlighted (chips (videoCards page_ana ! 1) ! 0)" by simp
qed

lemma page_ana_first:
  "videoCards page_ana ! 0 \<in> set (videoCards page_ana)"
  "\<not> hidden (videoCards page_ana ! 0)"
  "chips (videoCards page_ana ! 0) ! 0 \<in> set (chips (videoCards page_ana ! 0))"
  "chips (videoCards page_ana ! 0) ! 1 \<in> set (chips (videoCards page_ana ! 0))"
  "textContent (chips (videoCards page_ana ! 0) ! 0) = js ''Ana''"
  "textContent (chips (videoCards page_ana ! 0) ! 1) = js ''Beto''"
  "chip_not_expand (chips (videoCards page_ana ! 0) ! 0)"
  "chip_not_expand (chips (videoCards page_ana ! 0) ! 1)"
proof -
  from map_eq_nth[OF page_ana_state, of 0]
  show "videoCards page_ana ! 0 \<in> set (videoCards page_ana)" "\<not> hidden (videoCards page_ana ! 0)"
    by simp_all
  from map_eq_nth[OF page_ana_chips(1), of 0]
  have t: "map textContent (chips (videoCards page_ana ! 0)) = [js ''Ana'', js ''Beto'']" by simp
  from map_eq_nth[OF t, of 0] map_eq_nth[OF t, of 1]
  show "chips (videoCards page_ana ! 0) ! 0 \<in> set (chips (videoCards page_ana ! 0))"
    "chips (videoCards page_ana ! 0) ! 1 \<in> set (chips (videoCards page_ana ! 0))"
    "textContent (chips (videoCards page_ana ! 0) ! 0) = js ''Ana''"
    "textContent (chips (videoCards page_ana ! 0) ! 1) = js ''Beto''"
    by simp_all
  from map_eq_nth[OF page_ana_chips(3), of 0]
  have n: "map chip_not_expand (chips (videoCards page_ana ! 0)) = [True, True]" by simp
  from map_eq_nth[OF n, of 0] map_eq_nth[OF n, of 1]
  show "chip_not_expand (chips (videoCards page_ana ! 0) ! 0)"
    "chip_not_expand (chips (videoCards page_ana ! 0) ! 1)"
    by simp_all
qed

lemma page_ana_carla_value: "participantFilter_value page_ana_carla = []"
  by (simp add: page_ana_carla_def markup_page_def)

lemma page_carla_reachable: "reachable_from page_loaded page_carla"
  unfolding page_carla_def by (rule reachable_from.step[OF reachable_from.start]) simp

lemma page_carla_length: "length (videoCards page_carla) = 2"
  by (simp add: page_carla_def page_loaded_def page_ana_carla_def run_eval upt_rec)

theorem highlight_tracks_filter_witness:
  "init localeCompare_es_base page_ana_carla = Inr page_loaded \<and>
   participantFilter_value page_ana_carla = [] \<and>
   reachable_from page_loaded page_ana \<and>
   participantFilter_value page_ana = js ''Ana'' \<and>
   \<not> hidden (videoCards page_ana ! 0) \<and>
   highlighted (chips (videoCards page_ana ! 0) ! 0) \<and>
   \<not> highlighted (chips (videoCards page_ana ! 0) ! 1) \<and>
   reachable_from page_loaded page_carla \<and>
   page_ana = handle (Change_filter (js ''Ana'')) page_carla \<and>
   hidden (videoCards page_ana ! 1) \<and>
   map highlighted (chips (videoCards page_ana ! 1))
     = map highlighted (chips (videoCards page_carla ! 1))"
proof -
  have ne: "js ''Ana'' \<noteq> []" "js ''Beto'' \<noteq> js ''Ana''" by (simp_all add: js_def)
  note t = highlight_tracks_filter[OF page_loaded_init page_ana_carla_value page_ana_reachable]
  from t[THEN conjunct1] page_ana_first ne
  have a: "highlighted (chips (videoCards page_ana ! 0) ! 0)"
    "\<not> highlighted (chips (videoCards page_ana ! 0) ! 1)"
    unfolding page_ana_value by metis+
  note u = highlight_tracks_filter[OF page_loaded_init page_ana_carla_value page_carla_reachable]
  have en: "enabled (Change_filter (js ''Ana'')) page_carla" by simp
  have h: "hidden (videoCards (handle (Change_filter (js ''Ana'')) page_carla) ! 1)"
    using page_ana_second(1) by (simp only: page_ana_def)
  have l: "1 < length (videoCards page_carla)" by (simp add: page_carla_length)
  from u[THEN conjunct2, rule_format, OF en, THEN conjunct2, rule_format, OF l h]
  have f: "map highlighted (chips (videoCards page_ana ! 1))
     = map highlighted (chips (videoCards page_carla ! 1))"
    by (simp only: page_ana_def)
  from a f show ?thesis
    using page_loaded_init page_ana_carla_value page_ana_reachable page_ana_value page_ana_first(2)
      page_carla_reachable page_ana_second(1) page_ana_def
    by (intro conjI)
qed

theorem stale_highlight_counterexample:
  "init localeCompare_es_base page_ana_carla = Inr page_loaded \<and>
   participantFilter_value page_ana_carla = [] \<and>
   reachable_from page_loaded page_ana \<and>
   participantFilter_value page_ana = js ''Ana'' \<and>
   hidden (videoCards page_ana ! 1) \<and>
   textContent (chips (videoCards page_ana ! 1) ! 0) = js ''Carla'' \<and>
   textContent (chips (videoCards page_ana ! 1) ! 0) \<noteq> participantFilter_value page_ana \<and>
   highlighted (chips (videoCards page_ana ! 1) ! 0)"
proof -
  have "js ''Carla'' \<noteq> js ''Ana''" by (simp add: js_def)
  then show ?thesis
    using page_loaded_init page_ana_carla_value page_ana_reachable page_ana_value page_ana_second
    by simp
qed

end
